theory Spec2Isabelle
  imports Complex_Main "HOL-Library.Word" "HOL-Library.Log_Nat" "HOL-Library.Multiset"
begin

unbundle bit_operations_syntax

section \<open>Errors\<close>

text \<open>
  The exceptions the program can raise, one constructor for each kind that reaches the
  handler of \<open>getAIResponse\<close> or escapes from an event handler.
  \<^item> \<open>NoJsonFound\<close>: \<open>extractJson\<close> found no match of its pattern;
  \<^item> \<open>JsonSyntaxError\<close>: \<open>JSON.parse\<close> (or \<open>response.json()\<close>) rejected its input;
  \<^item> \<open>TypeError\<close>: a property read on \<open>null\<close>/\<open>undefined\<close>, or a call of a method
    the receiver does not have;
  \<^item> \<open>NoTracksArray\<close>: "JSON response did not contain a 'tracks' array.";
  \<^item> \<open>ApiRequestFailed\<close>: the generator answered with a status that is not ok;
  \<^item> \<open>FetchRejected\<close>: the request to the generator was rejected (no connection);
  \<^item> \<open>RangeError\<close>: a \<open>DataView\<close> write outside its buffer;
  \<^item> \<open>NotSupportedError\<close>: an \<open>OfflineAudioContext\<close> of length 0.
\<close>

datatype error =
    NoJsonFound
  | JsonSyntaxError
  | TypeError
  | NoTracksArray
  | ApiRequestFailed
  | FetchRejected
  | RangeError
  | NotSupportedError

section \<open>The generation orchestrator: \<open>extractJson\<close>\<close>

text \<open>
  \<^verbatim>\<open>const jsonRegex = /[{\[]{1}[\s\S]*[}\]]{1}/;\<close>
  One opening brace or bracket, any characters (greedy), one closing brace or bracket.
\<close>

definition is_open :: "char \<Rightarrow> bool" where
  "is_open c = (c = CHR ''{'' \<or> c = CHR ''['')"

definition is_close :: "char \<Rightarrow> bool" where
  "is_close c = (c = CHR ''}'' \<or> c = CHR '']'')"

text \<open>
  \<open>star_close s\<close> matches \<open>[\s\S]*[}\]]{1}\<close> at the head of \<open>s\<close>. The star is greedy:
  it first tries to take the head character and match the rest further right, and only
  when that fails does it stop and ask the head itself to be the closing character.
\<close>

fun star_close :: "string \<Rightarrow> string option" where
  "star_close [] = None"
| "star_close (c # cs) =
     (case star_close cs of
        Some m \<Rightarrow> Some (c # m)
      | None \<Rightarrow> if is_close c then Some [c] else None)"

text \<open>The whole pattern anchored at the head of the text.\<close>

fun match_here :: "string \<Rightarrow> string option" where
  "match_here [] = None"
| "match_here (c # cs) =
     (if is_open c then (case star_close cs of Some m \<Rightarrow> Some (c # m) | None \<Rightarrow> None)
      else None)"

text \<open>\<open>text.match(jsonRegex)\<close>: the leftmost position at which the pattern matches.\<close>

fun regex_match :: "string \<Rightarrow> string option" where
  "regex_match [] = None"
| "regex_match (c # cs) =
     (case match_here (c # cs) of Some m \<Rightarrow> Some m | None \<Rightarrow> regex_match cs)"

text \<open>
  \<^verbatim>\<open>
  function extractJson(text) {
      const match = text.match(jsonRegex);
      if (match) return JSON.parse(match[0]);
      throw new Error("No valid JSON object or array found in the AI response.");
  }
  \<close>
  \<open>JSON.parse\<close> belongs to the platform; it is the parameter \<open>json_parse\<close>, with \<open>None\<close>
  for the \<open>SyntaxError\<close> it throws.
\<close>

definition extractJson :: "(string \<Rightarrow> 'j option) \<Rightarrow> string \<Rightarrow> error + 'j" where
  "extractJson json_parse text =
     (case regex_match text of
        Some m \<Rightarrow> (case json_parse m of Some v \<Rightarrow> Inr v | None \<Rightarrow> Inl JsonSyntaxError)
      | None \<Rightarrow> Inl NoJsonFound)"

text \<open>
  Two notions to state what \<open>extractJson\<close> extracts. \<open>brackets_balanced st s\<close>: the braces
  and brackets of \<open>s\<close> close in the order they were opened (\<open>st\<close> is the stack of the
  closers still expected). \<open>open_to_last_close text\<close>: the part of \<open>text\<close> from its first
  opening character to its last closing character.
\<close>

fun brackets_balanced :: "string \<Rightarrow> string \<Rightarrow> bool" where
  "brackets_balanced st [] = (st = [])"
| "brackets_balanced st (c # cs) =
     (if c = CHR ''{'' then brackets_balanced (CHR ''}'' # st) cs
      else if c = CHR ''['' then brackets_balanced (CHR '']'' # st) cs
      else if is_close c then (case st of [] \<Rightarrow> False | d # st' \<Rightarrow> c = d \<and> brackets_balanced st' cs)
      else brackets_balanced st cs)"

definition open_to_last_close :: "string \<Rightarrow> string" where
  "open_to_last_close text =
     rev (dropWhile (\<lambda>c. \<not> is_close c) (rev (dropWhile (\<lambda>c. \<not> is_open c) text)))"


section \<open>JavaScript values\<close>

text \<open>
  The program keeps whatever \<open>JSON.parse\<close> returned and reads properties from it with no
  check of its shape, so the model keeps the values as they are: the six kinds of JSON
  value, and \<open>undefined\<close> for what a read of a missing property returns. Numbers are the
  rationals (every finite double is one); the fields of an object are an association
  list of its keys, each key once.
\<close>

datatype jsval =
    JUndefined
  | JNull
  | JBool bool
  | JNum rat
  | JStr string
  | JArr "jsval list"
  | JObj "(string \<times> jsval) list"

text \<open>\<open>!!v\<close>: what \<open>if (v)\<close>, \<open>!v\<close>, \<open>a && b\<close> and \<open>a || b\<close> test.\<close>

fun truthy :: "jsval \<Rightarrow> bool" where
  "truthy JUndefined = False"
| "truthy JNull = False"
| "truthy (JBool b) = b"
| "truthy (JNum r) = (r \<noteq> 0)"
| "truthy (JStr s) = (s \<noteq> [])"
| "truthy (JArr xs) = True"
| "truthy (JObj kvs) = True"

text \<open>
  \<open>v.k\<close> for the property names the program reads from parsed data (\<open>response\<close>,
  \<open>tracks\<close>, \<open>steps\<close>, \<open>name\<close>, \<open>beat\<close>, \<open>file\<close>, \<open>length\<close>): a \<open>TypeError\<close> on
  \<open>null\<close> and \<open>undefined\<close>, the field of an object, the length of an array or a string,
  and \<open>undefined\<close> otherwise.
\<close>

fun get_prop :: "jsval \<Rightarrow> string \<Rightarrow> error + jsval" where
  "get_prop JUndefined k = Inl TypeError"
| "get_prop JNull k = Inl TypeError"
| "get_prop (JObj kvs) k = Inr (case map_of kvs k of Some v \<Rightarrow> v | None \<Rightarrow> JUndefined)"
| "get_prop (JArr xs) k = Inr (if k = ''length'' then JNum (of_nat (length xs)) else JUndefined)"
| "get_prop (JStr s) k = Inr (if k = ''length'' then JNum (of_nat (length s)) else JUndefined)"
| "get_prop (JBool b) k = Inr JUndefined"
| "get_prop (JNum r) k = Inr JUndefined"

text \<open>
  The receiver of an array method (\<open>forEach\<close>, \<open>find\<close>, \<open>map\<close>, \<open>flatMap\<close>): parsed data
  has these methods only when it is an array; on anything else the call is a \<open>TypeError\<close>.
\<close>

fun as_array :: "jsval \<Rightarrow> error + jsval list" where
  "as_array (JArr xs) = Inr xs"
| "as_array v = Inl TypeError"

text \<open>A callback run over a list from left to right; the first exception ends the run.\<close>

fun map_throwing :: "('a \<Rightarrow> error + 'b) \<Rightarrow> 'a list \<Rightarrow> error + 'b list" where
  "map_throwing f [] = Inr []"
| "map_throwing f (x # xs) =
     (case f x of
        Inl e \<Rightarrow> Inl e
      | Inr y \<Rightarrow> (case map_throwing f xs of Inl e \<Rightarrow> Inl e | Inr ys \<Rightarrow> Inr (y # ys)))"

text \<open>
  The same for a callback with effects (calls of \<open>playSample\<close>): what was done before
  the exception stays done.
\<close>

fun forEach_collect :: "('a \<Rightarrow> 'p list \<times> error option) \<Rightarrow> 'a list \<Rightarrow> 'p list \<times> error option" where
  "forEach_collect f [] = ([], None)"
| "forEach_collect f (x # xs) =
     (case f x of
        (ps, Some e) \<Rightarrow> (ps, Some e)
      | (ps, None) \<Rightarrow> (case forEach_collect f xs of (qs, r) \<Rightarrow> (ps @ qs, r)))"

section \<open>The catalog and \<open>findSamples\<close>\<close>

text \<open>
  A row of \<open>sample_database.csv\<close> as \<open>loadDatabase\<close> keeps it:
  \<^verbatim>\<open>{ filename: columns[0], category: columns[1], pack: columns[2] }\<close>,
  the third column absent on a short row.
\<close>

record entry =
  filename :: string
  category :: string
  pack :: "string option"

text \<open>\<open>toLowerCase\<close> on the ASCII letters; other characters stay as they are.\<close>

definition lower_char :: "char \<Rightarrow> char" where
  "lower_char c =
     (case map_of (zip ''ABCDEFGHIJKLMNOPQRSTUVWXYZ'' ''abcdefghijklmnopqrstuvwxyz'') c of
        Some d \<Rightarrow> d
      | None \<Rightarrow> c)"

definition toLowerCase :: "string \<Rightarrow> string" where
  "toLowerCase s = map lower_char s"

fun starts_with :: "string \<Rightarrow> string \<Rightarrow> bool" where
  "starts_with s [] = True"
| "starts_with [] (p # ps) = False"
| "starts_with (c # cs) (p # ps) = (c = p \<and> starts_with cs ps)"

text \<open>\<open>s.includes(t)\<close>: \<open>t\<close> occurs in \<open>s\<close> as a block.\<close>

fun str_includes :: "string \<Rightarrow> string \<Rightarrow> bool" where
  "str_includes [] t = (t = [])"
| "str_includes (c # cs) t = (starts_with (c # cs) t \<or> str_includes cs t)"

text \<open>
  \<^verbatim>\<open>
  function findSamples(category, count = 5) {
      return sampleDatabase
          .filter(s => s.category && s.category.toLowerCase().includes(category.toLowerCase()))
          .sort(() => 0.5 - Math.random())
          .slice(0, count)
          .map(s => s.filename);
  }
  \<close>
  The sort with a random comparator leaves the rows in an order the program does not
  control: it is the parameter \<open>shuffle\<close>, the rearrangement this call happened to make.
\<close>

definition findSamples ::
  "(entry list \<Rightarrow> entry list) \<Rightarrow> entry list \<Rightarrow> string \<Rightarrow> nat \<Rightarrow> string list" where
  "findSamples shuffle db cat cnt =
     map filename
       (take cnt
          (shuffle
             (filter (\<lambda>s. category s \<noteq> [] \<and> str_includes (toLowerCase (category s)) (toLowerCase cat))
                db)))"


section \<open>The session state\<close>

text \<open>
  The variables of the \<open>load\<close> handler's closure and the parts of the page the program
  writes, as one record. The interval timer and the \<open>currentBeat\<close> of its callback's
  closure live and die together, so \<open>sequencerInterval\<close> holds both: \<open>None\<close> is the
  source's \<open>null\<close>. \<open>timerBpm\<close> is the tempo read when the timer was created; its period
  is \<open>60.0 / bpm * 1000\<close> milliseconds of that tempo.
\<close>

record timer =
  currentBeat :: nat
  timerBpm :: int

text \<open>
  A call of \<open>source.start\<close> made by \<open>playSample\<close>, recorded as the file and the beat it
  was made for: the live tick passes the audio clock's time at the tick of that beat,
  the offline renderer passes \<open>step.beat * timePerBeat\<close>.
\<close>

type_synonym trigger = "jsval \<times> jsval"

text \<open>
  A POST to \<open>/api/generate\<close>, recorded by the parts of its prompt that vary: the user's
  request and the three sample lists.
\<close>

datatype request = Generate string "string list" "string list" "string list"

text \<open>
  What \<open>recipeOutputDiv\<close> shows: nothing, the table of \<open>renderRecipe\<close> (a row for each
  track: its name, and the beat and file of each step), or the report of the response
  that caused an error.
\<close>

datatype recipe =
    Blank
  | RecipeTable "(jsval \<times> (jsval \<times> jsval) list) list"
  | ErrorReport jsval

type_synonym byte = "8 word"

record state =
  bpm :: int
  isPlaying :: bool
  sequencerInterval :: "timer option"
  sampleDatabase :: "entry list"
  loadedSamples :: "jsval set"
  currentSequence :: jsval
  statusDiv :: string
  aiButton_disabled :: bool
  downloadButton_disabled :: bool
  playButton_text :: string
  bpmValueSpan :: int
  recipeOutputDiv :: recipe
  requests :: "request list"
  played :: "trigger list"
  downloads :: "(int \<times> byte list) list"

text \<open>
  \<open>loadedSamples\<close> is the set of the values \<open>f\<close> for which \<open>loadedSamples[f]\<close> holds a
  decoded buffer. \<open>requests\<close>, \<open>played\<close> and \<open>downloads\<close> are the program's effects on the
  outside, in the order they happened: the requests sent to the generator, the samples
  started on the live audio graph, and the files handed to the browser for download
  (named \<open>ai-beat-<bpm>bpm.wav\<close>, so recorded by their tempo and their bytes).
\<close>

section \<open>The generation orchestrator: \<open>getAIResponse\<close>\<close>

text \<open>
  \<^verbatim>\<open>
  let sequenceData = Array.isArray(parsedData) ? parsedData : parsedData.tracks;
  if (!sequenceData) throw new Error("JSON response did not contain a 'tracks' array.");
  \<close>
\<close>

definition sequenceData :: "jsval \<Rightarrow> error + jsval" where
  "sequenceData parsedData =
     (case (case parsedData of JArr xs \<Rightarrow> Inr parsedData | _ \<Rightarrow> get_prop parsedData ''tracks'') of
        Inl e \<Rightarrow> Inl e
      | Inr v \<Rightarrow> if \<not> truthy v then Inl NoTracksArray else Inr v)"

text \<open>
  \<^verbatim>\<open>sequence.flatMap(track => track.steps.map(step => step.file))\<close>
\<close>

definition track_files :: "jsval \<Rightarrow> error + jsval list" where
  "track_files track =
     (case get_prop track ''steps'' of
        Inl e \<Rightarrow> Inl e
      | Inr st \<Rightarrow>
          (case as_array st of
             Inl e \<Rightarrow> Inl e
           | Inr steps \<Rightarrow> map_throwing (\<lambda>step. get_prop step ''file'') steps))"

definition sequence_files :: "jsval \<Rightarrow> error + jsval list" where
  "sequence_files sequence =
     (case as_array sequence of
        Inl e \<Rightarrow> Inl e
      | Inr tracks \<Rightarrow>
          (case map_throwing track_files tracks of
             Inl e \<Rightarrow> Inl e
           | Inr fss \<Rightarrow> Inr (concat fss)))"

text \<open>
  \<^verbatim>\<open>
  async function loadSamplesForSequence(sequence) {
      statusDiv.textContent = 'Loading required samples...';
      const uniqueFilenames = [...new Set(sequence.flatMap(...))];
      const loadPromises = uniqueFilenames.map(filename => {
          if (loadedSamples[filename] || !filename) return Promise.resolve();
          return fetch(path).then(...).then(...)
              .then(decodedData => { loadedSamples[filename] = decodedData; })
              .catch(err => console.error(...));
      });
      await Promise.all(loadPromises);
      statusDiv.textContent = 'Samples loaded. Ready to play!';
  }
  \<close>
  Whether the fetch and the decoding of a file succeed is the parameter \<open>fetched\<close>. The
  result pairs the exception, if one was thrown, with the state reached.
\<close>

definition loadSamplesForSequence ::
  "(jsval \<Rightarrow> bool) \<Rightarrow> jsval \<Rightarrow> state \<Rightarrow> error option \<times> state" where
  "loadSamplesForSequence fetched sequence s =
     (let s1 = s\<lparr>statusDiv := ''Loading required samples...''\<rparr> in
      case sequence_files sequence of
        Inl e \<Rightarrow> (Some e, s1)
      | Inr files \<Rightarrow>
          (let uniqueFilenames = remdups files in
           (None,
            s1\<lparr>loadedSamples :=
                  loadedSamples s1 \<union> {f \<in> set uniqueFilenames. truthy f \<and> fetched f},
                statusDiv := ''Samples loaded. Ready to play!''\<rparr>)))"

text \<open>
  \<^verbatim>\<open>
  function renderRecipe(sequence) {
      recipeOutputDiv.innerHTML = '';
      const table = document.createElement('table');
      sequence.forEach(track => {
          ... nameCell.textContent = track.name;
          track.steps.forEach(step => {
              ... link.textContent = step.file; stepDiv.textContent = `Beat ${step.beat}: `; ...
          });
      });
      recipeOutputDiv.appendChild(table);
  }
  \<close>
\<close>

definition recipe_step :: "jsval \<Rightarrow> error + jsval \<times> jsval" where
  "recipe_step step =
     (case get_prop step ''file'' of
        Inl e \<Rightarrow> Inl e
      | Inr f \<Rightarrow> (case get_prop step ''beat'' of Inl e \<Rightarrow> Inl e | Inr b \<Rightarrow> Inr (b, f)))"

definition recipe_row :: "jsval \<Rightarrow> error + jsval \<times> (jsval \<times> jsval) list" where
  "recipe_row track =
     (case get_prop track ''name'' of
        Inl e \<Rightarrow> Inl e
      | Inr n \<Rightarrow>
          (case get_prop track ''steps'' of
             Inl e \<Rightarrow> Inl e
           | Inr st \<Rightarrow>
               (case as_array st of
                  Inl e \<Rightarrow> Inl e
                | Inr steps \<Rightarrow>
                    (case map_throwing recipe_step steps of
                       Inl e \<Rightarrow> Inl e
                     | Inr cells \<Rightarrow> Inr (n, cells)))))"

definition renderRecipe :: "jsval \<Rightarrow> state \<Rightarrow> error option \<times> state" where
  "renderRecipe sequence s =
     (let s1 = s\<lparr>recipeOutputDiv := Blank\<rparr> in
      case as_array sequence of
        Inl e \<Rightarrow> (Some e, s1)
      | Inr tracks \<Rightarrow>
          (case map_throwing recipe_row tracks of
             Inl e \<Rightarrow> (Some e, s1)
           | Inr rows \<Rightarrow> (None, s1\<lparr>recipeOutputDiv := RecipeTable rows\<rparr>)))"

text \<open>
  What a click on the AI button meets outside the program: the text of the prompt
  field, the three rearrangements made by the random sorts, the generator's answer,
  \<open>JSON.parse\<close>, and which sample files can be fetched and decoded.
\<close>

datatype reply =
    Rejected
  | NotOk
  | BodyNotJson
  | Body jsval

record gen_env =
  promptValue :: string
  shuffleKicks :: "entry list \<Rightarrow> entry list"
  shuffleSnares :: "entry list \<Rightarrow> entry list"
  shuffleHats :: "entry list \<Rightarrow> entry list"
  generatorReply :: reply
  JSON_parse :: "string \<Rightarrow> jsval option"
  sampleFetched :: "jsval \<Rightarrow> bool"

text \<open>
  \<^verbatim>\<open>let parsedData = extractJson(rawAIResponse);\<close> and the two lines after it.
  \<open>rawAIResponse\<close> is \<open>data.response\<close>, whatever that is; \<open>text.match\<close> exists on a
  string only.
\<close>

definition parse_response :: "(string \<Rightarrow> jsval option) \<Rightarrow> jsval \<Rightarrow> error + jsval" where
  "parse_response json_parse rawAIResponse =
     (case rawAIResponse of
        JStr text \<Rightarrow>
          (case extractJson json_parse text of
             Inl e \<Rightarrow> Inl e
           | Inr parsedData \<Rightarrow> sequenceData parsedData)
      | _ \<Rightarrow> Inl TypeError)"

text \<open>
  The \<open>try\<close> block of \<open>getAIResponse\<close>:
  \<^verbatim>\<open>
  const response = await fetch(`${OLLAMA_SERVER_URL}/api/generate`, {...});
  if (!response.ok) throw new Error(`API request failed: ${response.statusText}`);
  const data = await response.json();
  rawAIResponse = data.response;
  let parsedData = extractJson(rawAIResponse);
  let sequenceData = Array.isArray(parsedData) ? parsedData : parsedData.tracks;
  if (!sequenceData) throw new Error("JSON response did not contain a 'tracks' array.");
  currentSequence = sequenceData;
  await loadSamplesForSequence(currentSequence);
  renderRecipe(currentSequence);
  downloadButton.disabled = false;
  \<close>
  The result is the exception thrown (if any), \<open>rawAIResponse\<close> and the state reached
  when the block was left.
\<close>

definition generation_try :: "gen_env \<Rightarrow> state \<Rightarrow> error option \<times> jsval \<times> state" where
  "generation_try env s =
     (let raw0 = JStr ''No response received.'' in
      case generatorReply env of
        Rejected \<Rightarrow> (Some FetchRejected, raw0, s)
      | NotOk \<Rightarrow> (Some ApiRequestFailed, raw0, s)
      | BodyNotJson \<Rightarrow> (Some JsonSyntaxError, raw0, s)
      | Body data \<Rightarrow>
          (case get_prop data ''response'' of
             Inl e \<Rightarrow> (Some e, raw0, s)
           | Inr rawAIResponse \<Rightarrow>
               (case parse_response (JSON_parse env) rawAIResponse of
                  Inl e \<Rightarrow> (Some e, rawAIResponse, s)
                | Inr sd \<Rightarrow>
                    (let s1 = s\<lparr>currentSequence := sd\<rparr> in
                     case loadSamplesForSequence (sampleFetched env) (currentSequence s1) s1 of
                       (Some e, s2) \<Rightarrow> (Some e, rawAIResponse, s2)
                     | (None, s2) \<Rightarrow>
                         (case renderRecipe (currentSequence s2) s2 of
                            (Some e, s3) \<Rightarrow> (Some e, rawAIResponse, s3)
                          | (None, s3) \<Rightarrow>
                              (None, rawAIResponse, s3\<lparr>downloadButton_disabled := False\<rparr>))))))"

text \<open>
  \<^verbatim>\<open>
  async function getAIResponse() {
      aiButton.disabled = true;
      downloadButton.disabled = true;
      let rawAIResponse = "No response received.";
      const kicks = findSamples('Drums', 5);
      const snares = findSamples('Drums', 5);
      const hats = findSamples('Drums', 5);
      if (kicks.length === 0 || snares.length === 0 || hats.length === 0) {
          statusDiv.textContent = "Error: Not enough drum samples found in the database.";
          aiButton.disabled = false;
          return;
      }
      const userPrompt = promptInput.value || "a simple 4-bar house beat";
      const finalPrompt = ...;
      try { ... } catch (error) {
          statusDiv.textContent = `Error: Could not get a valid response from the AI.`;
          recipeOutputDiv.innerHTML = `...<pre>${rawAIResponse}</pre>`;
      } finally {
          aiButton.disabled = false;
      }
  }
  \<close>
  The function is taken as one step, from the click to the end of its last
  continuation: no other handler writes \<open>currentSequence\<close>, and the button that starts it
  is disabled meanwhile. The two progress messages it shows on the way are overwritten
  on every path and are left out.
\<close>

definition getAIResponse :: "gen_env \<Rightarrow> state \<Rightarrow> state" where
  "getAIResponse env s =
     (let s0 = s\<lparr>aiButton_disabled := True, downloadButton_disabled := True\<rparr>;
          kicks = findSamples (shuffleKicks env) (sampleDatabase s0) ''Drums'' 5;
          snares = findSamples (shuffleSnares env) (sampleDatabase s0) ''Drums'' 5;
          hats = findSamples (shuffleHats env) (sampleDatabase s0) ''Drums'' 5
      in
        if kicks = [] \<or> snares = [] \<or> hats = [] then
          s0\<lparr>statusDiv := ''Error: Not enough drum samples found in the database.'',
             aiButton_disabled := False\<rparr>
        else
          (let userPrompt =
                 (if promptValue env = [] then ''a simple 4-bar house beat'' else promptValue env);
               s1 = s0\<lparr>requests := requests s0 @ [Generate userPrompt kicks snares hats]\<rparr>
           in
             case generation_try env s1 of
               (None, raw, s2) \<Rightarrow> s2\<lparr>aiButton_disabled := False\<rparr>
             | (Some e, raw, s2) \<Rightarrow>
                 s2\<lparr>statusDiv := ''Error: Could not get a valid response from the AI.'',
                    recipeOutputDiv := ErrorReport raw,
                    aiButton_disabled := False\<rparr>))"


section \<open>The playback scheduler\<close>

text \<open>
  \<^verbatim>\<open>
  function playSample(filename, time, context = audioContext) {
      if (context.state === 'suspended') { context.resume(); }
      if (loadedSamples[filename]) {
          const source = context.createBufferSource();
          source.buffer = loadedSamples[filename];
          source.connect(...);
          source.start(time);
      }
  }
  \<close>
  The model keeps the start it makes, if it makes one. Waking a suspended audio context
  and the platform's own check of the start time are not part of it.
\<close>

definition playSample :: "jsval set \<Rightarrow> jsval \<Rightarrow> jsval \<Rightarrow> trigger list" where
  "playSample loaded f b = (if f \<in> loaded then [(f, b)] else [])"

text \<open>\<^verbatim>\<open>track.steps.find(s => s.beat === currentBeat)\<close>: the first step that passes.\<close>

fun find_step :: "nat \<Rightarrow> jsval list \<Rightarrow> error + jsval" where
  "find_step cb [] = Inr JUndefined"
| "find_step cb (x # xs) =
     (case get_prop x ''beat'' of
        Inl e \<Rightarrow> Inl e
      | Inr v \<Rightarrow> if v = JNum (of_nat cb) then Inr x else find_step cb xs)"

text \<open>
  The body of the tick's \<open>forEach\<close>, for one track:
  \<^verbatim>\<open>
  const step = track.steps.find(s => s.beat === currentBeat);
  if (step && step.file) { playSample(step.file, currentTime); }
  \<close>
\<close>

definition tick_track :: "jsval set \<Rightarrow> nat \<Rightarrow> jsval \<Rightarrow> trigger list \<times> error option" where
  "tick_track loaded cb track =
     (case get_prop track ''steps'' of
        Inl e \<Rightarrow> ([], Some e)
      | Inr st \<Rightarrow>
          (case as_array st of
             Inl e \<Rightarrow> ([], Some e)
           | Inr steps \<Rightarrow>
               (case find_step cb steps of
                  Inl e \<Rightarrow> ([], Some e)
                | Inr step \<Rightarrow>
                    if truthy step then
                      (case get_prop step ''file'' of
                         Inl e \<Rightarrow> ([], Some e)
                       | Inr f \<Rightarrow>
                           if truthy f then (playSample loaded f (JNum (of_nat cb)), None)
                           else ([], None))
                    else ([], None))))"

text \<open>
  One firing of the interval timer:
  \<^verbatim>\<open>
  sequencerInterval = setInterval(() => {
      const currentTime = audioContext.currentTime;
      currentSequence.forEach(track => { ... });
      currentBeat = (currentBeat + 1) % totalBeats;
  }, timePerBeat * 1000);
  \<close>
  \<open>live_triggers\<close> is the \<open>forEach\<close>: the starts it makes and the exception that ended it,
  if any. An exception ends the callback before the counter is advanced; the timer
  itself goes on.
\<close>

definition live_triggers :: "jsval set \<Rightarrow> jsval \<Rightarrow> nat \<Rightarrow> trigger list \<times> error option" where
  "live_triggers loaded sequence cb =
     (case as_array sequence of
        Inl e \<Rightarrow> ([], Some e)
      | Inr tracks \<Rightarrow> forEach_collect (tick_track loaded cb) tracks)"

definition tick :: "state \<Rightarrow> state" where
  "tick s =
     (case sequencerInterval s of
        None \<Rightarrow> s
      | Some t \<Rightarrow>
          (case live_triggers (loadedSamples s) (currentSequence s) (currentBeat t) of
             (ps, Some e) \<Rightarrow> s\<lparr>played := played s @ ps\<rparr>
           | (ps, None) \<Rightarrow>
               s\<lparr>played := played s @ ps,
                 sequencerInterval := Some (t\<lparr>currentBeat := (currentBeat t + 1) mod 16\<rparr>)\<rparr>))"

text \<open>
  \<^verbatim>\<open>
  function togglePlayback() {
      if (!currentSequence.length) return;
      if (audioContext.state === 'suspended') audioContext.resume();
      if (isPlaying) {
          clearInterval(sequencerInterval);
          sequencerInterval = null;
          isPlaying = false;
          playButton.textContent = 'Play';
      } else {
          isPlaying = true;
          playButton.textContent = 'Stop';
          let currentBeat = 0;
          const totalBeats = 16;
          const timePerBeat = 60.0 / bpm;
          sequencerInterval = setInterval(..., timePerBeat * 1000);
      }
  }
  \<close>
\<close>

definition togglePlayback :: "state \<Rightarrow> state" where
  "togglePlayback s =
     (case get_prop (currentSequence s) ''length'' of
        Inl e \<Rightarrow> s
      | Inr n \<Rightarrow>
          if \<not> truthy n then s
          else if isPlaying s then
            s\<lparr>sequencerInterval := None, isPlaying := False, playButton_text := ''Play''\<rparr>
          else
            s\<lparr>isPlaying := True, playButton_text := ''Stop'',
              sequencerInterval := Some \<lparr>currentBeat = 0, timerBpm = bpm s\<rparr>\<rparr>)"


section \<open>The audio encoder: \<open>bufferToWav\<close>\<close>

text \<open>
  An element of a channel's \<open>Float32Array\<close>: a finite value, an infinity or NaN.
  Every finite single-precision value is a rational.
\<close>

datatype pcm = Finite rat | PosInf | NegInf | NaN

text \<open>
  An \<open>AudioBuffer\<close>: \<open>frames\<close> is the source's \<open>buffer.length\<close>, \<open>channelData\<close> holds what
  \<open>getChannelData(i)\<close> returns for each channel, and \<open>numberOfChannels\<close> is their number.
\<close>

record audio_buffer =
  sampleRate :: nat
  frames :: nat
  channelData :: "pcm list list"

definition numberOfChannels :: "audio_buffer \<Rightarrow> nat" where
  "numberOfChannels buffer = length (channelData buffer)"

text \<open>\<^verbatim>\<open>Math.max(-1, Math.min(1, x))\<close>\<close>

fun clip :: "pcm \<Rightarrow> pcm" where
  "clip (Finite r) = Finite (max (- 1) (min 1 r))"
| "clip PosInf = Finite 1"
| "clip NegInf = Finite (- 1)"
| "clip NaN = NaN"

text \<open>
  \<open>x | 0\<close>: the number cut towards zero and wrapped into the signed 32-bit range.
\<close>

definition trunc :: "rat \<Rightarrow> int" where
  "trunc r = (if 0 \<le> r then \<lfloor>r\<rfloor> else \<lceil>r\<rceil>)"

definition to_int32 :: "rat \<Rightarrow> int" where
  "to_int32 r = (trunc r + 2 ^ 31) mod 2 ^ 32 - 2 ^ 31"

text \<open>
  \<^verbatim>\<open>sample = (0.5 + sample < 0 ? sample * 32768 : sample * 32767) | 0;\<close>
  On a clipped single-precision sample the sum and both products are exact in double
  precision or round without crossing 0, so the rationals compute what the doubles do.
  A product with an infinity or NaN is an infinity or NaN, and \<open>| 0\<close> makes it 0.
\<close>

fun quantize :: "pcm \<Rightarrow> int" where
  "quantize (Finite r) = to_int32 (if 1 / 2 + r < 0 then r * 32768 else r * 32767)"
| "quantize PosInf = 0"
| "quantize NegInf = 0"
| "quantize NaN = 0"

text \<open>
  \<open>channels[i][offset]\<close>: a read past the end of a typed array is \<open>undefined\<close>, which
  \<open>Math.min\<close> turns into NaN.
\<close>

definition read_sample :: "pcm list \<Rightarrow> nat \<Rightarrow> pcm" where
  "read_sample ch offset = (if offset < length ch then ch ! offset else NaN)"

text \<open>Little-endian bytes of a 16-bit and a 32-bit value.\<close>

definition le16 :: "16 word \<Rightarrow> byte list" where
  "le16 w = [ucast w, ucast (drop_bit 8 w)]"

definition le32 :: "32 word \<Rightarrow> byte list" where
  "le32 w = [ucast w, ucast (drop_bit 8 w), ucast (drop_bit 16 w), ucast (drop_bit 24 w)]"

text \<open>
  A \<open>DataView\<close> write of the bytes \<open>bs\<close> at \<open>pos\<close>: a \<open>RangeError\<close> when they do not fit.
\<close>

definition view_set :: "byte list \<Rightarrow> nat \<Rightarrow> byte list \<Rightarrow> error + byte list" where
  "view_set view pos bs =
     (if pos + length bs \<le> length view
      then Inr (take pos view @ bs @ drop (pos + length bs) view)
      else Inl RangeError)"

text \<open>
  The argument of \<open>setUint16\<close> or \<open>setUint32\<close>; the write reduces it modulo \<open>2^16\<close> or
  \<open>2^32\<close>.
  \<^verbatim>\<open>
  const setUint16 = (data) => { view.setUint16(pos, data, true); pos += 2; };
  const setUint32 = (data) => { view.setUint32(pos, data, true); pos += 4; };
  \<close>
\<close>

datatype field = U16 nat | U32 nat

fun field_bytes :: "field \<Rightarrow> byte list" where
  "field_bytes (U16 n) = le16 (of_nat n)"
| "field_bytes (U32 n) = le32 (of_nat n)"

definition put_field :: "nat \<times> byte list \<Rightarrow> field \<Rightarrow> error + nat \<times> byte list" where
  "put_field pv fld =
     (case pv of (pos, view) \<Rightarrow>
        (case view_set view pos (field_bytes fld) of
           Inl e \<Rightarrow> Inl e
         | Inr view' \<Rightarrow> Inr (pos + length (field_bytes fld), view')))"

fun put_fields :: "nat \<times> byte list \<Rightarrow> field list \<Rightarrow> error + nat \<times> byte list" where
  "put_fields pv [] = Inr pv"
| "put_fields pv (fld # flds) =
     (case put_field pv fld of Inl e \<Rightarrow> Inl e | Inr pv' \<Rightarrow> put_fields pv' flds)"

text \<open>
  The inner loop, one frame:
  \<^verbatim>\<open>
  for (let i = 0; i < numOfChan; i++) {
      let sample = Math.max(-1, Math.min(1, channels[i][offset]));
      sample = (0.5 + sample < 0 ? sample * 32768 : sample * 32767) | 0;
      view.setInt16(pos, sample, true);
      pos += 2;
  }
  \<close>
\<close>

fun write_frame :: "pcm list list \<Rightarrow> nat \<Rightarrow> nat \<times> byte list \<Rightarrow> error + nat \<times> byte list" where
  "write_frame [] offset pv = Inr pv"
| "write_frame (ch # chs) offset (pos, view) =
     (case view_set view pos (le16 (word_of_int (quantize (clip (read_sample ch offset))))) of
        Inl e \<Rightarrow> Inl e
      | Inr view' \<Rightarrow> write_frame chs offset (pos + 2, view'))"

text \<open>
  The outer loop:
  \<^verbatim>\<open>while (pos < len) { for (...) {...}  offset++; }\<close>
  Nothing in the loop itself says that it ends (with no channel, \<open>pos\<close> stays where it
  is), so it is a partial function: \<open>None\<close> is the loop that runs for ever.
\<close>

partial_function (option) wav_loop ::
  "pcm list list \<Rightarrow> nat \<Rightarrow> nat \<Rightarrow> nat \<times> byte list \<Rightarrow> (error + byte list) option" where
  "wav_loop channels len offset pv =
     (if fst pv < len then
        (case write_frame channels offset pv of
           Inl e \<Rightarrow> Some (Inl e)
         | Inr pv' \<Rightarrow> wav_loop channels len (offset + 1) pv')
      else Some (Inr (snd pv)))"

text \<open>
  \<^verbatim>\<open>
  function bufferToWav(buffer) {
      const numOfChan = buffer.numberOfChannels,
          len = buffer.length * numOfChan * 2 + 44,
          wavBuffer = new ArrayBuffer(len), view = new DataView(wavBuffer),
          channels = [], sampleRate = buffer.sampleRate;
      let offset = 0, pos = 0;
      setUint32(0x46464952); setUint32(len - 8); setUint32(0x45564157);
      setUint32(0x20746d66); setUint32(16); setUint16(1); setUint16(numOfChan);
      setUint32(sampleRate); setUint32(sampleRate * 2 * numOfChan);
      setUint16(numOfChan * 2); setUint16(16); setUint32(0x61746164);
      setUint32(len - pos - 4);
      for (...) channels.push(buffer.getChannelData(i));
      while (pos < len) { ... }
      return new Blob([view], { type: 'audio/wav' });
  }
  \<close>
  The result is the bytes of the blob.
\<close>

definition bufferToWav :: "audio_buffer \<Rightarrow> (error + byte list) option" where
  "bufferToWav buffer =
     (let numOfChan = numberOfChannels buffer;
          len = frames buffer * numOfChan * 2 + 44;
          view = replicate len (0 :: byte)
      in
        case put_fields (0, view)
               [U32 0x46464952, U32 (len - 8), U32 0x45564157,
                U32 0x20746d66, U32 16, U16 1, U16 numOfChan,
                U32 (sampleRate buffer), U32 (sampleRate buffer * 2 * numOfChan),
                U16 (numOfChan * 2), U16 16, U32 0x61746164] of
          Inl e \<Rightarrow> Some (Inl e)
        | Inr (pos, view1) \<Rightarrow>
            (case put_field (pos, view1) (U32 (len - pos - 4)) of
               Inl e \<Rightarrow> Some (Inl e)
             | Inr pv \<Rightarrow> wav_loop (channelData buffer) len 0 pv))"

text \<open>Reading a header back: the unsigned little-endian value at an offset.\<close>

definition u16_at :: "byte list \<Rightarrow> nat \<Rightarrow> nat" where
  "u16_at bs i = unat (bs ! i) + 256 * unat (bs ! (i + 1))"

definition u32_at :: "byte list \<Rightarrow> nat \<Rightarrow> nat" where
  "u32_at bs i =
     unat (bs ! i) + 256 * unat (bs ! (i + 1)) + 65536 * unat (bs ! (i + 2))
       + 16777216 * unat (bs ! (i + 3))"

section \<open>The offline renderer: \<open>renderBeatToWav\<close>\<close>

text \<open>
  Double-precision arithmetic, for the length of the rendering. \<open>fl64 x\<close> is the double
  nearest to \<open>x\<close>, ties to the even significand: with \<open>2^e \<le> |x| < 2^(e+1)\<close> the doubles
  around \<open>x\<close> are the multiples of \<open>2^(e-52)\<close>. (Overflow and subnormal numbers are beyond
  the magnitudes a tempo produces and are not modelled.)
\<close>

definition round_half_even :: "rat \<Rightarrow> int" where
  "round_half_even x =
     (let f = \<lfloor>x\<rfloor>; d = x - of_int f
      in if d < 1 / 2 then f else if 1 / 2 < d then f + 1 else if even f then f else f + 1)"

definition ilog2 :: "rat \<Rightarrow> int" where
  "ilog2 x = (if 1 \<le> x then bitlen \<lfloor>x\<rfloor> - 1 else - bitlen (\<lceil>1 / x\<rceil> - 1))"

definition fl64 :: "rat \<Rightarrow> rat" where
  "fl64 x =
     (if x = 0 then 0
      else (let u = 2 powi (ilog2 \<bar>x\<bar> - 52) in of_int (round_half_even (x / u)) * u))"

text \<open>
  \<^verbatim>\<open>
  const totalBeats = 16;
  const timePerBeat = 60.0 / bpm;
  const duration = totalBeats * timePerBeat;
  const offlineContext = new OfflineAudioContext(2, 44100 * duration, 44100);
  \<close>
  The constructor takes its length as an \<open>unsigned long\<close>: the number is cut towards
  zero and reduced modulo \<open>2^32\<close>, and an infinity (a tempo of 0) becomes 0.
  \<open>render_frames\<close> is the length that arrives.
\<close>

definition render_frames :: "int \<Rightarrow> nat" where
  "render_frames tempo =
     (if tempo = 0 then 0
      else
        (let timePerBeat = fl64 (60 / of_int tempo);
             duration = fl64 (16 * timePerBeat)
         in nat (trunc (fl64 (44100 * duration)) mod 2 ^ 32)))"

text \<open>
  The context the constructor makes, by its three arguments: the number of channels,
  the length in frames and the sample rate. A length of 0 is refused with a
  \<open>NotSupportedError\<close>.
\<close>

record offline_context =
  ctx_channels :: nat
  ctx_length :: nat
  ctx_sampleRate :: nat

definition render_context :: "int \<Rightarrow> error + offline_context" where
  "render_context tempo =
     (if render_frames tempo = 0 then Inl NotSupportedError
      else Inr \<lparr>ctx_channels = 2, ctx_length = render_frames tempo, ctx_sampleRate = 44100\<rparr>)"

text \<open>
  The scheduling loop of the renderer:
  \<^verbatim>\<open>
  currentSequence.forEach(track => {
      track.steps.forEach(step => {
          if (step.file) playSample(step.file, step.beat * timePerBeat, offlineContext);
      });
  });
  \<close>
\<close>

definition render_step :: "jsval set \<Rightarrow> jsval \<Rightarrow> trigger list \<times> error option" where
  "render_step loaded step =
     (case get_prop step ''file'' of
        Inl e \<Rightarrow> ([], Some e)
      | Inr f \<Rightarrow>
          if truthy f then
            (case get_prop step ''beat'' of
               Inl e \<Rightarrow> ([], Some e)
             | Inr b \<Rightarrow> (playSample loaded f b, None))
          else ([], None))"

definition render_track :: "jsval set \<Rightarrow> jsval \<Rightarrow> trigger list \<times> error option" where
  "render_track loaded track =
     (case get_prop track ''steps'' of
        Inl e \<Rightarrow> ([], Some e)
      | Inr st \<Rightarrow>
          (case as_array st of
             Inl e \<Rightarrow> ([], Some e)
           | Inr steps \<Rightarrow> forEach_collect (render_step loaded) steps))"

definition render_schedule :: "jsval set \<Rightarrow> jsval \<Rightarrow> trigger list \<times> error option" where
  "render_schedule loaded sequence =
     (case as_array sequence of
        Inl e \<Rightarrow> ([], Some e)
      | Inr tracks \<Rightarrow> forEach_collect (render_track loaded) tracks)"

text \<open>
  \<^verbatim>\<open>
  async function renderBeatToWav() {
      if (!currentSequence.length) return;
      statusDiv.textContent = 'Rendering beat to WAV file...';
      downloadButton.disabled = true;
      ...
      const offlineContext = new OfflineAudioContext(2, 44100 * duration, 44100);
      currentSequence.forEach(...);
      const renderedBuffer = await offlineContext.startRendering();
      const wavBlob = bufferToWav(renderedBuffer);
      ... a.download = `ai-beat-${bpm}bpm.wav`; ... a.click(); ...
      statusDiv.textContent = 'Download complete!';
      downloadButton.disabled = false;
  }
  \<close>
  The platform's mixing is the parameter \<open>startRendering\<close>: the buffer it returns for
  the context and the starts scheduled on it. An exception leaves the function where
  it is thrown. The result is \<open>None\<close> when the encoder does not return.
\<close>

definition renderBeatToWav ::
  "(offline_context \<Rightarrow> trigger list \<Rightarrow> audio_buffer) \<Rightarrow> state \<Rightarrow> state option" where
  "renderBeatToWav startRendering s =
     (case get_prop (currentSequence s) ''length'' of
        Inl e \<Rightarrow> Some s
      | Inr n \<Rightarrow>
          if \<not> truthy n then Some s
          else
            (let s1 = s\<lparr>statusDiv := ''Rendering beat to WAV file...'',
                        downloadButton_disabled := True\<rparr>
             in
               case render_context (bpm s1) of
                 Inl e \<Rightarrow> Some s1
               | Inr offlineContext \<Rightarrow>
                   (case render_schedule (loadedSamples s1) (currentSequence s1) of
                      (ps, Some e) \<Rightarrow> Some s1
                    | (ps, None) \<Rightarrow>
                        (case bufferToWav (startRendering offlineContext ps) of
                           None \<Rightarrow> None
                         | Some (Inl e) \<Rightarrow> Some s1
                         | Some (Inr bytes) \<Rightarrow>
                             Some (s1\<lparr>downloads := downloads s1 @ [(bpm s1, bytes)],
                                      statusDiv := ''Download complete!'',
                                      downloadButton_disabled := False\<rparr>)))))"

section \<open>Notions used to state the properties\<close>

text \<open>\<open>Array.isArray(v)\<close>, and the value under the key \<open>tracks\<close> of an object.\<close>

fun is_array :: "jsval \<Rightarrow> bool" where
  "is_array (JArr xs) = True"
| "is_array v = False"

fun tracks_value :: "jsval \<Rightarrow> jsval option" where
  "tracks_value (JObj kvs) = map_of kvs ''tracks''"
| "tracks_value v = None"

text \<open>A sort returns the elements it was given, in some order.\<close>

definition rearranges :: "('a list \<Rightarrow> 'a list) \<Rightarrow> bool" where
  "rearranges sh = (\<forall>xs. mset (sh xs) = mset xs)"

text \<open>
  The shape the prompt asks the generator for: a track has a \<open>steps\<close> array, and a step
  is a value whose properties can be read (anything but \<open>null\<close>).
\<close>

fun is_step :: "jsval \<Rightarrow> bool" where
  "is_step JNull = False"
| "is_step JUndefined = False"
| "is_step v = True"

fun is_track :: "jsval \<Rightarrow> bool" where
  "is_track (JObj kvs) =
     (case map_of kvs ''steps'' of Some (JArr steps) \<Rightarrow> list_all is_step steps | _ \<Rightarrow> False)"
| "is_track v = False"

text \<open>
  The sequence of the specification's end-to-end example,
  \<^verbatim>\<open>[{name:"Kick", steps:[{beat:0,file:"k.wav"},{beat:4,file:"k.wav"}]}]\<close>,
  and a state of the session that holds it, stopped, at 120 bpm.
\<close>

definition kick_sequence :: jsval where
  "kick_sequence =
     JArr [JObj [(''name'', JStr ''Kick''),
                 (''steps'', JArr [JObj [(''beat'', JNum 0), (''file'', JStr ''k.wav'')],
                                   JObj [(''beat'', JNum 4), (''file'', JStr ''k.wav'')]])]]"

definition example_state :: state where
  "example_state =
     \<lparr>bpm = 120, isPlaying = False, sequencerInterval = None,
      sampleDatabase = [\<lparr>filename = ''k.wav'', category = ''Drums/Kicks'', pack = Some ''808''\<rparr>],
      loadedSamples = {JStr ''k.wav''}, currentSequence = kick_sequence,
      statusDiv = ''Samples loaded. Ready to play!'',
      aiButton_disabled = False, downloadButton_disabled = False,
      playButton_text = ''Play'', bpmValueSpan = 120, recipeOutputDiv = Blank,
      requests = [], played = [], downloads = []\<rparr>"

text \<open>
  A generator whose answer is the text \<open>[{}]\<close>: one track, with no \<open>steps\<close>.
\<close>

definition stepless_env :: gen_env where
  "stepless_env =
     \<lparr>promptValue = ''house'',
      shuffleKicks = (\<lambda>xs. xs), shuffleSnares = (\<lambda>xs. xs), shuffleHats = (\<lambda>xs. xs),
      generatorReply = Body (JObj [(''response'', JStr ''[{}]'')]),
      JSON_parse = (\<lambda>t. if t = ''[{}]'' then Some (JArr [JObj []]) else None),
      sampleFetched = (\<lambda>f. True)\<rparr>"

text \<open>A track with two steps at beat 3.\<close>

definition twice_at_3 :: jsval where
  "twice_at_3 =
     JArr [JObj [(''name'', JStr ''Snare''),
                 (''steps'', JArr [JObj [(''beat'', JNum 3), (''file'', JStr ''a.wav'')],
                                   JObj [(''beat'', JNum 3), (''file'', JStr ''b.wav'')]])]]"



text \<open>A rendering of silence, of the channels, length and rate of its context.\<close>

definition silent_rendering :: "offline_context \<Rightarrow> trigger list \<Rightarrow> audio_buffer" where
  "silent_rendering ctx ps =
     \<lparr>sampleRate = ctx_sampleRate ctx, frames = ctx_length ctx,
      channelData = replicate (ctx_channels ctx) (replicate (ctx_length ctx) (Finite 0))\<rparr>"

text \<open>
  The 44 bytes that \<open>bufferToWav\<close> writes before the samples, field by field.
\<close>

definition wav_header :: "audio_buffer \<Rightarrow> byte list" where
  "wav_header buffer =
     (let numOfChan = numberOfChannels buffer;
          len = frames buffer * numOfChan * 2 + 44
      in concat (map field_bytes
           [U32 0x46464952, U32 (len - 8), U32 0x45564157,
            U32 0x20746d66, U32 16, U16 1, U16 numOfChan,
            U32 (sampleRate buffer), U32 (sampleRate buffer * 2 * numOfChan),
            U16 (numOfChan * 2), U16 16, U32 0x61746164, U32 (len - 44)]))"

text \<open>A buffer of two frames on two channels, at 44100 Hz.\<close>

definition tiny_buffer :: audio_buffer where
  "tiny_buffer =
     \<lparr>sampleRate = 44100, frames = 2,
      channelData = [[Finite (1 / 2), Finite (- 1)], [Finite 1, NaN]]\<rparr>"

text \<open>
  The double that \<open>renderBeatToWav\<close> passes as the length of the rendering, before the
  constructor cuts it to an integer.
\<close>

definition render_value :: "int \<Rightarrow> rat" where
  "render_value t = fl64 (44100 * fl64 (16 * fl64 (60 / of_int t)))"

section \<open>Auxiliary facts\<close>

subsection \<open>Floor and ceiling of a quotient of numerals\<close>

lemma rat_floor_numeral: "\<lfloor>(numeral a :: rat) / numeral b\<rfloor> = numeral a div numeral b"
  using floor_divide_of_int_eq [of "numeral a" "numeral b", where ?'a = rat] by simp

lemma rat_floor_neg_numeral:
  "\<lfloor>- ((numeral a :: rat) / numeral b)\<rfloor> = - numeral a div numeral b"
  using floor_divide_of_int_eq [of "- numeral a" "numeral b", where ?'a = rat] by simp

lemma rat_ceiling_numeral:
  "\<lceil>(numeral a :: rat) / numeral b\<rceil> = - (- numeral a div numeral b)"
  by (simp add: ceiling_def rat_floor_neg_numeral)

lemma rat_ceiling_neg_numeral:
  "\<lceil>- ((numeral a :: rat) / numeral b)\<rceil> = - (numeral a div numeral b)"
  by (simp add: ceiling_def rat_floor_numeral)

lemmas rat_round_numeral =
  rat_floor_numeral rat_floor_neg_numeral rat_ceiling_numeral rat_ceiling_neg_numeral

subsection \<open>The pattern of \<open>extractJson\<close>\<close>

lemma open_not_close: "is_open c \<Longrightarrow> \<not> is_close c"
  by (auto simp: is_open_def is_close_def)

lemma star_close_eq:
  "star_close s =
     (let m = rev (dropWhile (\<lambda>c. \<not> is_close c) (rev s)) in if m = [] then None else Some m)"
  by (induction s) (auto simp: Let_def dropWhile_append split: option.splits if_splits)

lemma star_close_None_iff: "star_close s = None \<longleftrightarrow> (\<forall>c\<in>set s. \<not> is_close c)"
  by (induction s) (auto split: option.splits)

lemma match_here_None_star: "star_close s = None \<Longrightarrow> match_here s = None"
  by (cases s) (auto split: option.splits if_splits)

lemma regex_match_None_star: "star_close s = None \<Longrightarrow> regex_match s = None"
proof (induction s)
  case Nil
  then show ?case by simp
next
  case (Cons c cs)
  from Cons.prems have tail: "star_close cs = None"
    by (simp split: option.splits)
  have "match_here (c # cs) = None"
    by (rule match_here_None_star [OF Cons.prems])
  with Cons.IH [OF tail] show ?case by simp
qed

text \<open>
  The leftmost greedy match is the part of the text from the first opening character
  to the last closing character, when that part is not empty.
\<close>

lemma regex_match_eq:
  "regex_match s =
     (if open_to_last_close s = [] then None else Some (open_to_last_close s))"
proof (induction s)
  case Nil
  then show ?case by (simp add: open_to_last_close_def)
next
  case (Cons c cs)
  show ?case
  proof (cases "is_open c")
    case False
    then have "match_here (c # cs) = None" by simp
    moreover from False have "open_to_last_close (c # cs) = open_to_last_close cs"
      by (simp add: open_to_last_close_def)
    ultimately show ?thesis using Cons.IH by simp
  next
    case True
    then have nc: "\<not> is_close c" by (rule open_not_close)
    from True have otl:
      "open_to_last_close (c # cs) = rev (dropWhile (\<lambda>c. \<not> is_close c) (rev cs @ [c]))"
      by (simp add: open_to_last_close_def)
    show ?thesis
    proof (cases "star_close cs")
      case None
      then have "\<forall>d\<in>set cs. \<not> is_close d" by (simp add: star_close_None_iff)
      with nc have "open_to_last_close (c # cs) = []"
        by (simp add: otl dropWhile_append)
      moreover have "regex_match (c # cs) = None"
        using None regex_match_None_star [OF None] True by simp
      ultimately show ?thesis by simp
    next
      case (Some m)
      then have m: "m = rev (dropWhile (\<lambda>c. \<not> is_close c) (rev cs))" and ne: "m \<noteq> []"
        by (auto simp: star_close_eq Let_def split: if_splits)
      from ne m have ex: "\<exists>d\<in>set (rev cs). is_close d"
        by auto
      then have "dropWhile (\<lambda>c. \<not> is_close c) (rev cs @ [c])
                   = dropWhile (\<lambda>c. \<not> is_close c) (rev cs) @ [c]"
        by (auto simp: dropWhile_append)
      then have "open_to_last_close (c # cs) = c # m"
        by (simp add: otl m)
      moreover have "regex_match (c # cs) = Some (c # m)"
        using Some True by simp
      ultimately show ?thesis by simp
    qed
  qed
qed

subsection \<open>\<open>findSamples\<close> with nothing to find\<close>

lemma findSamples_Nil:
  assumes "rearranges sh"
    and "filter (\<lambda>e. str_includes (toLowerCase (category e)) (toLowerCase cat)) db = []"
  shows "findSamples sh db cat n = []"
proof -
  have "filter (\<lambda>s. category s \<noteq> [] \<and> str_includes (toLowerCase (category s)) (toLowerCase cat)) db
          = []"
    using assms(2) by (auto simp: filter_empty_conv)
  moreover have "sh [] = []"
    using assms(1) by (metis rearranges_def mset_zero_iff)
  ultimately show ?thesis by (simp add: findSamples_def)
qed

subsection \<open>A tick over a well-shaped sequence throws nothing\<close>

lemma is_step_get: "is_step v \<Longrightarrow> \<exists>w. get_prop v k = Inr w"
  by (cases v) auto

lemma find_step_ok:
  "list_all is_step steps \<Longrightarrow>
     \<exists>w. find_step cb steps = Inr w \<and> (w = JUndefined \<or> is_step w)"
proof (induction steps)
  case Nil
  then show ?case by simp
next
  case (Cons x xs)
  then obtain v where "get_prop x ''beat'' = Inr v"
    using is_step_get [of x "''beat''"] by auto
  with Cons show ?case by auto
qed

lemma tick_track_ok: "is_track track \<Longrightarrow> snd (tick_track loaded cb track) = None"
proof (cases track)
  case (JObj kvs)
  assume "is_track track"
  with JObj obtain steps
    where st: "map_of kvs ''steps'' = Some (JArr steps)" and all: "list_all is_step steps"
    by (auto split: option.splits jsval.splits)
  from find_step_ok [OF all, of cb] obtain w
    where w: "find_step cb steps = Inr w" "w = JUndefined \<or> is_step w"
    by blast
  show ?thesis
  proof (cases "truthy w")
    case False
    with JObj st w show ?thesis by (simp add: tick_track_def)
  next
    case True
    with w(2) have "is_step w" by auto
    then obtain f where "get_prop w ''file'' = Inr f"
      using is_step_get by blast
    with JObj st w True show ?thesis by (simp add: tick_track_def)
  qed
qed (auto)

lemma forEach_collect_ok:
  "(\<And>x. x \<in> set xs \<Longrightarrow> snd (f x) = None) \<Longrightarrow> snd (forEach_collect f xs) = None"
proof (induction xs)
  case Nil
  then show ?case by simp
next
  case (Cons x xs)
  then have "snd (f x) = None" and "snd (forEach_collect f xs) = None" by auto
  then show ?case by (cases "f x"; cases "forEach_collect f xs") auto
qed

lemma live_triggers_ok:
  "list_all is_track tracks \<Longrightarrow> snd (live_triggers loaded (JArr tracks) cb) = None"
  by (simp add: live_triggers_def forEach_collect_ok tick_track_ok list_all_iff)

lemma tick_advances:
  assumes "sequencerInterval s = Some t"
    and "currentSequence s = JArr tracks"
    and "list_all is_track tracks"
  shows "sequencerInterval (tick s) = Some (t\<lparr>currentBeat := (currentBeat t + 1) mod 16\<rparr>)"
proof -
  obtain ps where "live_triggers (loadedSamples s) (JArr tracks) (currentBeat t) = (ps, None)"
    using live_triggers_ok [OF assms(3), of "loadedSamples s" "currentBeat t"]
    by (cases "live_triggers (loadedSamples s) (JArr tracks) (currentBeat t)") auto
  with assms(1,2) show ?thesis by (simp add: tick_def)
qed

text \<open>
  From a fresh start, the counter after \<open>n\<close> ticks is \<open>n mod 16\<close>.
\<close>

lemma tick_keeps_sequence: "currentSequence (tick s) = currentSequence s"
  by (simp add: tick_def split: option.splits prod.splits)

lemma tick_keeps_playing: "isPlaying (tick s) = isPlaying s"
  by (simp add: tick_def split: option.splits prod.splits)

lemma ticks_count_mod_16:
  assumes "sequencerInterval s = Some \<lparr>currentBeat = 0, timerBpm = b\<rparr>"
    and "currentSequence s = JArr tracks"
    and "list_all is_track tracks"
  shows "sequencerInterval ((tick ^^ n) s) = Some \<lparr>currentBeat = n mod 16, timerBpm = b\<rparr>
         \<and> currentSequence ((tick ^^ n) s) = JArr tracks"
proof (induction n)
  case 0
  then show ?case using assms by simp
next
  case (Suc n)
  then have t: "sequencerInterval ((tick ^^ n) s) = Some \<lparr>currentBeat = n mod 16, timerBpm = b\<rparr>"
    and q: "currentSequence ((tick ^^ n) s) = JArr tracks" by simp_all
  from tick_advances [OF t q assms(3)]
  have "sequencerInterval (tick ((tick ^^ n) s))
          = Some \<lparr>currentBeat = (n mod 16 + 1) mod 16, timerBpm = b\<rparr>" by simp
  moreover have "(n mod 16 + 1) mod 16 = Suc n mod 16" by presburger
  ultimately show ?case using q by (simp add: tick_keeps_sequence)
qed

subsection \<open>What a generation that fails early leaves behind\<close>

text \<open>
  Everything the \<open>try\<close> block can throw once it has assigned \<open>currentSequence\<close> is a
  \<open>TypeError\<close>; a failure of any other kind (no JSON found, no \<open>tracks\<close>, a syntax
  error, a failed request) leaves the state as the block found it.
\<close>

lemma get_prop_error: "get_prop v k = Inl e \<Longrightarrow> e = TypeError"
  by (cases v) auto

lemma as_array_error: "as_array v = Inl e \<Longrightarrow> e = TypeError"
  by (cases v) auto

lemma map_throwing_error:
  "(\<And>x e. f x = Inl e \<Longrightarrow> e = TypeError) \<Longrightarrow> map_throwing f xs = Inl e \<Longrightarrow> e = TypeError"
  by (induction xs arbitrary: e) (auto split: sum.splits)

lemma track_files_error: "track_files x = Inl e \<Longrightarrow> e = TypeError"
proof -
  have m: "\<And>xs. map_throwing (\<lambda>step. get_prop step ''file'') xs = Inl e \<Longrightarrow> e = TypeError"
    by (rule map_throwing_error [where f = "\<lambda>step. get_prop step ''file''"])
      (auto dest: get_prop_error)
  assume "track_files x = Inl e"
  then show ?thesis
    by (auto simp: track_files_def split: sum.splits dest: get_prop_error as_array_error m)
qed

lemma sequence_files_error: "sequence_files v = Inl e \<Longrightarrow> e = TypeError"
proof -
  have m: "\<And>xs. map_throwing track_files xs = Inl e \<Longrightarrow> e = TypeError"
    by (rule map_throwing_error [where f = track_files]) (auto dest: track_files_error)
  assume "sequence_files v = Inl e"
  then show ?thesis
    by (auto simp: sequence_files_def split: sum.splits dest: as_array_error m)
qed

lemma recipe_step_error: "recipe_step x = Inl e \<Longrightarrow> e = TypeError"
  by (auto simp: recipe_step_def split: sum.splits dest: get_prop_error)

lemma recipe_row_error: "recipe_row x = Inl e \<Longrightarrow> e = TypeError"
proof -
  have m: "\<And>xs. map_throwing recipe_step xs = Inl e \<Longrightarrow> e = TypeError"
    by (rule map_throwing_error [where f = recipe_step]) (auto dest: recipe_step_error)
  assume "recipe_row x = Inl e"
  then show ?thesis
    by (auto simp: recipe_row_def split: sum.splits dest: get_prop_error as_array_error m)
qed

lemma renderRecipe_error: "renderRecipe v s = (Some e, s') \<Longrightarrow> e = TypeError"
proof -
  have m: "\<And>xs. map_throwing recipe_row xs = Inl e \<Longrightarrow> e = TypeError"
    by (rule map_throwing_error [where f = recipe_row]) (auto dest: recipe_row_error)
  assume "renderRecipe v s = (Some e, s')"
  then show ?thesis
    by (auto simp: renderRecipe_def Let_def split: sum.splits dest: as_array_error m)
qed

lemma loadSamples_error: "loadSamplesForSequence fetched v s = (Some e, s') \<Longrightarrow> e = TypeError"
  by (auto simp: loadSamplesForSequence_def Let_def split: sum.splits dest: sequence_files_error)

lemma early_failure_keeps_state:
  assumes "generation_try env s = (Some e, raw, s')" and "e \<noteq> TypeError"
  shows "s' = s"
  using assms
  by (auto simp: generation_try_def Let_def split: reply.splits sum.splits prod.splits option.splits
      dest: loadSamples_error renderRecipe_error)

lemma failure_without_TypeError_keeps_sequence:
  assumes "generation_try env s1 = (Some e, raw, s2)" and "e \<noteq> TypeError"
  shows "currentSequence s2 = currentSequence s1"
  using early_failure_keeps_state [OF assms] by simp

subsection \<open>The encoder returns, with its header in place\<close>

lemma view_set_ok:
  "pos + length bs \<le> length view \<Longrightarrow>
     view_set view pos bs = Inr (take pos view @ bs @ drop (pos + length bs) view)"
  by (simp add: view_set_def)

lemma put_fields_concat:
  "pos + length (concat (map field_bytes flds)) \<le> length view \<Longrightarrow>
     put_fields (pos, view) flds =
       Inr (pos + length (concat (map field_bytes flds)),
            take pos view @ concat (map field_bytes flds)
              @ drop (pos + length (concat (map field_bytes flds))) view)"
proof (induction flds arbitrary: pos view)
  case Nil
  then show ?case by simp
next
  case (Cons f fs)
  let ?fb = "field_bytes f"
  let ?rest = "concat (map field_bytes fs)"
  let ?v1 = "take pos view @ ?fb @ drop (pos + length ?fb) view"
  from Cons.prems have fit: "pos + length ?fb + length ?rest \<le> length view" by simp
  then have step: "put_field (pos, view) f = Inr (pos + length ?fb, ?v1)"
    by (simp add: put_field_def view_set_ok)
  have len1: "length ?v1 = length view" using fit by simp
  have "put_fields (pos + length ?fb, ?v1) fs =
          Inr (pos + length ?fb + length ?rest,
               take (pos + length ?fb) ?v1 @ ?rest @ drop (pos + length ?fb + length ?rest) ?v1)"
    by (rule Cons.IH) (use fit len1 in simp)
  moreover have "take (pos + length ?fb) ?v1 = take pos view @ ?fb"
    using fit by simp
  moreover have "drop (pos + length ?fb + length ?rest) ?v1 = drop (pos + length ?fb + length ?rest) view"
    using fit by (simp add: add.commute add.left_commute)
  ultimately show ?case using step by (simp add: add.assoc)
qed

lemma put_field_ok:
  "pos + length (field_bytes fld) \<le> length view \<Longrightarrow>
     put_field (pos, view) fld =
       Inr (pos + length (field_bytes fld),
            take pos view @ field_bytes fld @ drop (pos + length (field_bytes fld)) view)"
  by (simp add: put_field_def view_set_ok)

lemma write_frame_ok:
  "pos + 2 * length chs \<le> length view \<Longrightarrow>
     \<exists>view'. write_frame chs off (pos, view) = Inr (pos + 2 * length chs, view')
           \<and> length view' = length view \<and> take pos view' = take pos view"
proof (induction chs arbitrary: pos view)
  case Nil
  then show ?case by simp
next
  case (Cons ch chs)
  let ?bs = "le16 (word_of_int (quantize (clip (read_sample ch off))))"
  let ?v1 = "take pos view @ ?bs @ drop (pos + 2) view"
  have l2: "length ?bs = 2" by (simp add: le16_def)
  from Cons.prems have fit: "pos + 2 \<le> length view" by simp
  then have w: "view_set view pos ?bs = Inr ?v1"
    using view_set_ok [of pos ?bs view] l2 by simp
  have len1: "length ?v1 = length view" using fit l2 by simp
  from Cons.prems len1 have "(pos + 2) + 2 * length chs \<le> length ?v1" by simp
  from Cons.IH [OF this] obtain view' where
    r: "write_frame chs off (pos + 2, ?v1) = Inr (pos + 2 + 2 * length chs, view')"
      "length view' = length ?v1" "take (pos + 2) view' = take (pos + 2) ?v1"
    by blast
  have "take pos view' = take pos (take (pos + 2) view')" by (simp add: min_def)
  also have "\<dots> = take pos (take (pos + 2) ?v1)" using r(3) by simp
  also have "\<dots> = take pos view" using fit by (simp add: min_def)
  finally have "take pos view' = take pos view" .
  with r w len1 show ?case by (simp add: add.assoc)
qed

lemma wav_loop_ok:
  "pos + 2 * length chs * n = len \<Longrightarrow> length view = len \<Longrightarrow>
     \<exists>view'. wav_loop chs len off (pos, view) = Some (Inr view')
           \<and> length view' = len \<and> take pos view' = take pos view"
proof (induction n arbitrary: pos view off)
  case 0
  then show ?case by (subst wav_loop.simps) simp
next
  case (Suc n)
  show ?case
  proof (cases "length chs = 0")
    case True
    with Suc.prems show ?thesis by (subst wav_loop.simps) simp
  next
    case False
    then have pos_chs: "0 < length chs" by simp
    have "len = pos + 2 * length chs + 2 * length chs * n"
      using Suc.prems(1) by simp
    with pos_chs have lt: "pos < len" by linarith
    from Suc.prems have "pos + 2 * length chs \<le> length view" by simp
    from write_frame_ok [OF this, of off] obtain v1 where
      wf: "write_frame chs off (pos, view) = Inr (pos + 2 * length chs, v1)"
        "length v1 = length view" "take pos v1 = take pos view"
      by blast
    have "pos + 2 * length chs + 2 * length chs * n = len" using Suc.prems(1) by simp
    from Suc.IH [OF this, of v1 "off + 1"] wf(2) Suc.prems(2) obtain view' where
      r: "wav_loop chs len (off + 1) (pos + 2 * length chs, v1) = Some (Inr view')"
        "length view' = len" "take (pos + 2 * length chs) view' = take (pos + 2 * length chs) v1"
      by auto
    have "take pos view' = take pos (take (pos + 2 * length chs) view')" by (simp add: min_def)
    also have "\<dots> = take pos v1" using r(3) by (simp add: min_def)
    finally have "take pos view' = take pos view" using wf(3) by simp
    moreover have "wav_loop chs len off (pos, view) = Some (Inr view')"
      by (subst wav_loop.simps) (use lt wf(1) r(1) in simp)
    ultimately show ?thesis using r(2) by simp
  qed
qed


lemma unat_low_byte: "unat (ucast (w :: 'a::len word) :: byte) = unat w mod 256"
  by (simp add: unsigned_ucast_eq take_bit_eq_mod)

lemma unat_shifted: "unat (drop_bit n (w :: 'a::len word)) = unat w div 2 ^ n"
  unfolding unat_drop_bit_eq by (rule drop_bit_eq_div)

lemma split_bytes2:
  fixes n :: nat
  assumes "n < 65536"
  shows "n mod 256 + 256 * (n div 2 ^ 8 mod 256) = n"
proof -
  have "n div 256 < 256" using assms by simp
  then have "n div 256 mod 256 = n div 256" by simp
  then show ?thesis by simp
qed

lemma split_bytes4:
  fixes n :: nat
  assumes "n < 4294967296"
  shows "n mod 256 + 256 * (n div 2 ^ 8 mod 256) + 65536 * (n div 2 ^ 16 mod 256)
           + 16777216 * (n div 2 ^ 24 mod 256) = n"
proof -
  define a where "a = n div 256"
  define b where "b = a div 256"
  define c where "c = b div 256"
  have n: "n = n mod 256 + 256 * a" by (simp add: a_def)
  have a: "a = a mod 256 + 256 * b" by (simp add: b_def)
  have b: "b = b mod 256 + 256 * c" by (simp add: c_def)
  have b16: "n div 2 ^ 16 = b" by (simp add: a_def b_def div_mult2_eq)
  have c24: "n div 2 ^ 24 = c" by (simp add: a_def b_def c_def div_mult2_eq)
  have "c < 256" using assms by (simp add: a_def b_def c_def div_mult2_eq)
  then have c: "c mod 256 = c" by simp
  have a8: "n div 2 ^ 8 = a" by (simp add: a_def)
  show ?thesis
    unfolding a8 b16 c24 c using n a b by linarith
qed

lemma unat_le16_sum:
  "unat (ucast (w :: 16 word) :: byte) + 256 * unat (ucast (drop_bit 8 w) :: byte) = unat w"
proof -
  have "unat w < 65536" using unsigned_less [of w, where ?'a = nat] by simp
  from split_bytes2 [OF this] show ?thesis by (simp only: unat_low_byte unat_shifted)
qed

lemma unat_le32_sum:
  "unat (ucast (w :: 32 word) :: byte) + 256 * unat (ucast (drop_bit 8 w) :: byte)
     + 65536 * unat (ucast (drop_bit 16 w) :: byte)
     + 16777216 * unat (ucast (drop_bit 24 w) :: byte) = unat w"
proof -
  have "unat w < 4294967296" using unsigned_less [of w, where ?'a = nat] by simp
  from split_bytes4 [OF this] show ?thesis by (simp only: unat_low_byte unat_shifted)
qed

lemma u16_at_le16: "length pre = i \<Longrightarrow> u16_at (pre @ le16 w @ post) i = unat w"
  using unat_le16_sum [of w] by (simp add: u16_at_def le16_def nth_append)

lemma u32_at_le32: "length pre = i \<Longrightarrow> u32_at (pre @ le32 w @ post) i = unat w"
  using unat_le32_sum [of w] by (simp add: u32_at_def le32_def nth_append)


lemma unat_of_nat16: "n < 65536 \<Longrightarrow> unat (of_nat n :: 16 word) = n"
  by (simp add: unat_of_nat)

lemma unat_of_nat32: "n < 4294967296 \<Longrightarrow> unat (of_nat n :: 32 word) = n"
  by (simp add: unat_of_nat)

lemma length_wav_header: "length (wav_header buffer) = 44"
  by (simp add: wav_header_def Let_def le16_def le32_def)

lemma bufferToWav_returns:
  "\<exists>bytes. bufferToWav buffer = Some (Inr bytes)
         \<and> length bytes = 44 + frames buffer * numberOfChannels buffer * 2
         \<and> take 44 bytes = wav_header buffer"
proof -
  define C where "C = numberOfChannels buffer"
  define len where "len = frames buffer * C * 2 + 44"
  define view0 where "view0 = replicate len (0 :: byte)"
  define flds where "flds = [U32 0x46464952, U32 (len - 8), U32 0x45564157,
            U32 0x20746d66, U32 16, U16 1, U16 C,
            U32 (sampleRate buffer), U32 (sampleRate buffer * 2 * C),
            U16 (C * 2), U16 16, U32 0x61746164]"
  define H40 where "H40 = concat (map field_bytes flds)"
  have l40: "length H40 = 40" by (simp add: H40_def flds_def le16_def le32_def)
  have lv0: "length view0 = len" by (simp add: view0_def)
  have len44: "44 \<le> len" by (simp add: len_def)
  have "0 + length (concat (map field_bytes flds)) \<le> length view0"
    using l40 lv0 len44 by (simp add: H40_def)
  from put_fields_concat [OF this]
  have p1: "put_fields (0, view0) flds = Inr (40, H40 @ drop 40 view0)"
    using l40 by (simp add: H40_def)
  define v1 where "v1 = H40 @ drop 40 view0"
  have lv1: "length v1 = len" using l40 lv0 len44 by (simp add: v1_def)
  define f13 where "f13 = U32 (len - 40 - 4)"
  define last4 where "last4 = field_bytes f13"
  have l4: "length last4 = 4" by (simp add: last4_def f13_def le32_def)
  define v2 where "v2 = H40 @ last4 @ drop 44 view0"
  have "40 + length (field_bytes f13) \<le> length v1"
    using l4 lv1 len44 by (simp add: last4_def)
  from put_field_ok [OF this]
  have p2: "put_field (40, v1) f13 = Inr (44, v2)"
    using l40 l4 by (simp add: v1_def v2_def last4_def [symmetric])
  have lv2: "length v2 = len" using l40 l4 lv0 len44 by (simp add: v2_def)
  have "44 + 2 * length (channelData buffer) * frames buffer = len"
    by (simp add: len_def C_def numberOfChannels_def)
  from wav_loop_ok [OF this lv2, of 0] obtain bytes where
    b: "wav_loop (channelData buffer) len 0 (44, v2) = Some (Inr bytes)"
      "length bytes = len" "take 44 bytes = take 44 v2"
    by blast
  have "bufferToWav buffer =
          (case put_fields (0, view0) flds of
             Inl e \<Rightarrow> Some (Inl e)
           | Inr (pos, view1) \<Rightarrow>
               (case put_field (pos, view1) (U32 (len - pos - 4)) of
                  Inl e \<Rightarrow> Some (Inl e)
                | Inr pv \<Rightarrow> wav_loop (channelData buffer) len 0 pv))"
    by (simp only: bufferToWav_def Let_def C_def len_def view0_def flds_def)
  also have "\<dots> = Some (Inr bytes)"
    by (simp only: p1 [folded v1_def] sum.case prod.case p2 [unfolded f13_def] b(1))
  finally have "bufferToWav buffer = Some (Inr bytes)" .
  moreover have "take 44 v2 = wav_header buffer"
  proof -
    have f13: "f13 = U32 (len - 44)" by (simp add: f13_def)
    have "wav_header buffer = concat (map field_bytes (flds @ [f13]))"
      by (simp only: wav_header_def Let_def C_def len_def flds_def f13 append.simps)
    also have "\<dots> = H40 @ last4" by (simp add: H40_def last4_def)
    also have "\<dots> = take 44 v2" using l40 l4 by (simp add: v2_def)
    finally show ?thesis by simp
  qed
  ultimately show ?thesis
    using b(2,3) by (simp add: len_def C_def)
qed



subsection \<open>Rounding to a double, and the length of the rendering\<close>

lemma bitlen_pos: "0 < n \<Longrightarrow> 1 \<le> bitlen n"
  using bitlen_eq_zero_iff [of n] bitlen_nonneg [of n] by linarith

lemma powi_nonneg: "0 \<le> k \<Longrightarrow> (2 :: rat) powi k = 2 ^ nat k"
  by (simp add: power_int_def)

lemma powi_neg: "k \<le> 0 \<Longrightarrow> (2 :: rat) powi k = 1 / 2 ^ nat (- k)"
  by (cases "k = 0") (simp_all add: power_int_def inverse_eq_divide power_one_over)

lemma ilog2_lower_ge1:
  assumes "1 \<le> x"
  shows "2 powi (ilog2 x) \<le> x" and "x < 2 powi (ilog2 x + 1)"
proof -
  define n where "n = \<lfloor>x\<rfloor>"
  define k where "k = bitlen n"
  have n1: "1 \<le> n" using assms by (simp add: n_def le_floor_iff)
  then have k1: "1 \<le> k" using bitlen_pos [of n] by (simp add: k_def)
  from bitlen_bounds [of n] n1 have lo: "2 ^ nat (k - 1) \<le> n" and hi: "n < 2 ^ nat k"
    by (simp_all add: k_def)
  have il: "ilog2 x = k - 1" using assms by (simp add: ilog2_def n_def k_def)
  have "(2 :: rat) ^ nat (k - 1) = of_int (2 ^ nat (k - 1))" by simp
  also have "\<dots> \<le> of_int n" using lo by (simp only: of_int_le_iff)
  also have "\<dots> \<le> x" by (simp add: n_def)
  finally show "2 powi (ilog2 x) \<le> x" using k1 by (simp add: il powi_nonneg)
  have "x < of_int (n + 1)" by (simp add: n_def) linarith
  also have "\<dots> \<le> of_int (2 ^ nat k)" using hi by (simp only: of_int_le_iff)
  also have "\<dots> = (2 :: rat) ^ nat k" by simp
  finally show "x < 2 powi (ilog2 x + 1)" using k1 by (simp add: il powi_nonneg)
qed

lemma ilog2_lower_lt1:
  assumes "0 < x" and "x < 1"
  shows "2 powi (ilog2 x) \<le> x" and "x < 2 powi (ilog2 x + 1)"
proof -
  define y where "y = 1 / x"
  define m where "m = \<lceil>y\<rceil> - 1"
  define k where "k = bitlen m"
  have y1: "1 < y" using assms by (simp add: y_def)
  have ypos: "0 < y" using y1 by simp
  have x_eq: "x = 1 / y" using assms by (simp add: y_def)
  have "1 < \<lceil>y\<rceil>" using y1 by (simp add: less_ceiling_iff)
  then have m1: "1 \<le> m" by (simp add: m_def)
  then have k1: "1 \<le> k" using bitlen_pos [of m] by (simp add: k_def)
  have my: "of_int m < y" by (simp add: m_def) linarith
  have ym: "y \<le> of_int (m + 1)" by (simp add: m_def)
  from bitlen_bounds [of m] m1 have lo: "2 ^ nat (k - 1) \<le> m" and hi: "m < 2 ^ nat k"
    by (simp_all add: k_def)
  have il: "ilog2 x = - k" using assms by (simp add: ilog2_def y_def m_def k_def)
  have "y \<le> of_int (2 ^ nat k)"
    using ym hi by (meson order_trans of_int_le_iff zless_imp_add1_zle)
  then have yk: "y \<le> 2 ^ nat k" by simp
  have "1 / (2 :: rat) ^ nat k \<le> 1 / y"
    using yk ypos by (simp add: frac_le)
  then have "1 / (2 :: rat) ^ nat k \<le> x" by (simp add: x_eq)
  moreover have "2 powi (ilog2 x) = 1 / (2 :: rat) ^ nat k"
    using k1 by (simp add: il powi_neg)
  ultimately show "2 powi (ilog2 x) \<le> x" by simp
  have "(2 :: rat) ^ nat (k - 1) = of_int (2 ^ nat (k - 1))" by simp
  also have "\<dots> \<le> of_int m" using lo by (simp only: of_int_le_iff)
  also have "\<dots> < y" by (rule my)
  finally have "(2 :: rat) ^ nat (k - 1) < y" .
  then have "1 / y < 1 / (2 :: rat) ^ nat (k - 1)"
    by (simp add: frac_less2)
  then have "x < 1 / (2 :: rat) ^ nat (k - 1)" by (simp add: x_eq)
  moreover have "2 powi (ilog2 x + 1) = 1 / (2 :: rat) ^ nat (k - 1)"
    using k1 powi_neg [of "- k + 1"] by (simp add: il)
  ultimately show "x < 2 powi (ilog2 x + 1)" by simp
qed

lemma ilog2_bounds:
  assumes "0 < x"
  shows "2 powi (ilog2 x) \<le> x \<and> x < 2 powi (ilog2 x + 1)"
  using ilog2_lower_ge1 [of x] ilog2_lower_lt1 [of x] assms by (cases "1 \<le> x") auto

lemma round_half_even_close: "\<bar>of_int (round_half_even q) - q\<bar> \<le> 1 / 2"
proof -
  define f where "f = \<lfloor>q\<rfloor>"
  define d where "d = q - of_int f"
  have d0: "0 \<le> d" and d1: "d < 1" unfolding d_def f_def by linarith+
  have q: "q = of_int f + d" by (simp add: d_def)
  have r: "round_half_even q =
      (if d < 1 / 2 then f else if 1 / 2 < d then f + 1 else if even f then f else f + 1)"
    by (simp only: round_half_even_def Let_def f_def d_def)
  consider "d < 1 / 2" | "1 / 2 < d" | "d = 1 / 2" by linarith
  then show ?thesis
  proof cases
    case 1
    then have "round_half_even q = f" by (simp add: r)
    with 1 d0 show ?thesis by (simp add: q)
  next
    case 2
    then have "round_half_even q = f + 1" by (simp add: r)
    with 2 d1 show ?thesis by (simp add: q)
  next
    case 3
    then have "round_half_even q = f \<or> round_half_even q = f + 1" by (simp add: r)
    with 3 show ?thesis by (auto simp: q)
  qed
qed

lemma fl64_error:
  assumes "x \<noteq> 0"
  shows "\<bar>fl64 x - x\<bar> \<le> \<bar>x\<bar> / 2 ^ 53"
proof -
  define e where "e = ilog2 \<bar>x\<bar>"
  define u :: rat where "u = 2 powi (e - 52)"
  define n where "n = round_half_even (x / u)"
  have upos: "0 < u" by (simp add: u_def)
  have fl: "fl64 x = of_int n * u" using assms by (simp add: fl64_def Let_def e_def u_def n_def)
  have "fl64 x - x = (of_int n - x / u) * u" using upos by (simp add: fl field_simps)
  then have "\<bar>fl64 x - x\<bar> = \<bar>of_int n - x / u\<bar> * u" using upos by (simp add: abs_mult)
  also have "\<dots> \<le> 1 / 2 * u"
    using round_half_even_close [of "x / u"] upos by (simp add: n_def mult_right_mono)
  also have "1 / 2 * u = 2 powi e / 2 ^ 53"
    by (simp add: u_def power_int_diff)
  also have "\<dots> \<le> \<bar>x\<bar> / 2 ^ 53"
    using ilog2_bounds [of "\<bar>x\<bar>"] assms by (simp add: e_def divide_right_mono)
  finally show ?thesis .
qed


lemma fl64_between:
  assumes "0 < lo" and "lo \<le> x" and "x \<le> hi"
  shows "lo * (1 - 1 / 2 ^ 53) \<le> fl64 x \<and> fl64 x \<le> hi * (1 + 1 / 2 ^ 53)"
proof -
  have xpos: "0 < x" using assms by simp
  then have "\<bar>fl64 x - x\<bar> \<le> x / 2 ^ 53" using fl64_error [of x] by simp
  then have "x - x / 2 ^ 53 \<le> fl64 x" and "fl64 x \<le> x + x / 2 ^ 53" by linarith+
  then have a: "x * (1 - 1 / 2 ^ 53) \<le> fl64 x" and b: "fl64 x \<le> x * (1 + 1 / 2 ^ 53)"
    by (simp_all add: algebra_simps)
  have "lo * (1 - 1 / 2 ^ 53) \<le> x * (1 - 1 / 2 ^ 53)"
    using assms(2) by (intro mult_right_mono) simp_all
  moreover have "x * (1 + 1 / 2 ^ 53) \<le> hi * (1 + 1 / 2 ^ 53)"
    using assms(3) by (intro mult_right_mono) simp_all
  ultimately show ?thesis using a b by linarith
qed

lemma render_value_close:
  assumes "0 < t"
  shows "42336000 / of_int t - 1 / of_int t < render_value t"
    and "render_value t < 42336000 / of_int t + 1 / of_int t"
proof -
  define a :: rat where "a = 60 / of_int t"
  define d :: rat where "d = 1 - 1 / 2 ^ 53"
  define u :: rat where "u = 1 + 1 / 2 ^ 53"
  have apos: "0 < a" using assms by (simp add: a_def)
  have dpos: "0 < d" by (simp add: d_def)
  have upos: "0 < u" by (simp add: u_def)
  have s1: "a * d \<le> fl64 a" "fl64 a \<le> a * u"
    using fl64_between [of a a a] apos by (simp_all add: d_def u_def)
  have "0 < 16 * (a * d)" using apos dpos by simp
  moreover have "16 * (a * d) \<le> 16 * fl64 a" "16 * fl64 a \<le> 16 * (a * u)" using s1 by simp_all
  ultimately have s2: "16 * (a * d) * d \<le> fl64 (16 * fl64 a)" "fl64 (16 * fl64 a) \<le> 16 * (a * u) * u"
    using fl64_between [of "16 * (a * d)" "16 * fl64 a" "16 * (a * u)"] by (simp_all add: d_def u_def)
  have "0 < 44100 * (16 * (a * d) * d)" using apos dpos by simp
  moreover have "44100 * (16 * (a * d) * d) \<le> 44100 * fl64 (16 * fl64 a)"
    "44100 * fl64 (16 * fl64 a) \<le> 44100 * (16 * (a * u) * u)" using s2 by simp_all
  ultimately have s3: "44100 * (16 * (a * d) * d) * d \<le> render_value t"
    "render_value t \<le> 44100 * (16 * (a * u) * u) * u"
    using fl64_between [of "44100 * (16 * (a * d) * d)" "44100 * fl64 (16 * fl64 a)" "44100 * (16 * (a * u) * u)"]
    by (simp_all add: d_def u_def render_value_def a_def)
  have tpos: "0 < (of_int t :: rat)" using assms by simp
  have lo: "42336000 - 1 < 42336000 * (d * d * d)" by (simp add: d_def)
  have hi: "42336000 * (u * u * u) < 42336000 + 1" by (simp add: u_def)
  have "42336000 / of_int t - 1 / of_int t = ((42336000 - 1) :: rat) / of_int t"
    by (simp add: diff_divide_distrib)
  also have "\<dots> < 42336000 * (d * d * d) / of_int t"
    using lo tpos by (rule divide_strict_right_mono)
  also have "\<dots> = 44100 * (16 * (a * d) * d) * d" by (simp add: a_def)
  finally show "42336000 / of_int t - 1 / of_int t < render_value t" using s3(1) by linarith
  have "44100 * (16 * (a * u) * u) * u = 42336000 * (u * u * u) / of_int t" by (simp add: a_def)
  also have "\<dots> < (42336000 + 1) / of_int t"
    using hi tpos by (rule divide_strict_right_mono)
  also have "\<dots> = 42336000 / of_int t + 1 / of_int t" by (simp add: add_divide_distrib)
  finally show "render_value t < 42336000 / of_int t + 1 / of_int t" using s3(2) by linarith
qed

lemma exact_split:
  assumes "0 < (t :: int)"
  shows "(42336000 :: rat) / of_int t = of_int (42336000 div t) + of_int (42336000 mod t) / of_int t"
proof -
  have "(42336000 :: int) = t * (42336000 div t) + 42336000 mod t" by simp
  then have "(of_int 42336000 :: rat) = of_int t * of_int (42336000 div t) + of_int (42336000 mod t)"
    by (metis of_int_add of_int_mult)
  then show ?thesis using assms by (simp add: field_simps)
qed

lemma render_frames_floor:
  assumes "0 < t"
  shows "int (render_frames t) = \<lfloor>render_value t\<rfloor>"
proof -
  have tpos: "0 < (of_int t :: rat)" using assms by simp
  have t1: "1 \<le> (of_int t :: rat)" using assms by simp
  have "(1 :: rat) / of_int t \<le> 42336000 / of_int t"
    using tpos by (intro divide_right_mono) simp_all
  then have "0 < render_value t"
    using render_value_close(1) [OF assms] by linarith
  then have fl0: "0 \<le> \<lfloor>render_value t\<rfloor>" and tr: "trunc (render_value t) = \<lfloor>render_value t\<rfloor>"
    by (simp_all add: trunc_def)
  have "(42336000 :: rat) / of_int t \<le> 42336000" and "(1 :: rat) / of_int t \<le> 1"
    using t1 tpos by (simp_all add: divide_le_eq)
  then have "render_value t < 42336001"
    using render_value_close(2) [OF assms] by linarith
  then have "\<lfloor>render_value t\<rfloor> < 42336001" by (simp add: floor_less_iff)
  then have "\<lfloor>render_value t\<rfloor> mod 2 ^ 32 = \<lfloor>render_value t\<rfloor>" using fl0 by simp
  then show ?thesis
    using assms fl0 by (simp add: render_frames_def Let_def render_value_def [symmetric] tr)
qed

lemma render_frames_cases:
  assumes "0 < t"
  shows "\<not> t dvd 42336000 \<Longrightarrow> int (render_frames t) = 42336000 div t"
    and "t dvd 42336000 \<Longrightarrow>
           int (render_frames t) = 42336000 div t \<or> int (render_frames t) = 42336000 div t - 1"
proof -
  define q where "q = 42336000 div t"
  define r where "r = 42336000 mod t"
  define v where "v = render_value t"
  have tpos: "0 < (of_int t :: rat)" using assms by simp
  have E: "(42336000 :: rat) / of_int t = of_int q + of_int r / of_int t"
    using exact_split [OF assms] by (simp add: q_def r_def)
  have lo: "of_int q + of_int r / of_int t - 1 / of_int t < v"
    and hi: "v < of_int q + of_int r / of_int t + 1 / of_int t"
    using render_value_close [OF assms] by (simp_all add: E v_def)
  have fr: "int (render_frames t) = \<lfloor>v\<rfloor>" using render_frames_floor [OF assms] by (simp add: v_def)
  {
    assume "\<not> t dvd 42336000"
    then have "r \<noteq> 0" by (simp add: r_def dvd_eq_mod_eq_0)
    moreover have "0 \<le> r" "r < t" using assms by (simp_all add: r_def)
    ultimately have r1: "1 \<le> r" and r2: "r + 1 \<le> t" by simp_all
    have "(1 :: rat) / of_int t \<le> of_int r / of_int t"
      using r1 tpos by (intro divide_right_mono) simp_all
    then have a: "of_int q < v" using lo by linarith
    have "(of_int (r + 1) :: rat) \<le> of_int t"
      using r2 by (simp only: of_int_le_iff)
    then have "(of_int (r + 1) :: rat) / of_int t \<le> 1"
      using tpos by (simp add: divide_le_eq)
    then have "of_int r / of_int t + 1 / of_int t \<le> (1 :: rat)"
      by (simp add: add_divide_distrib)
    then have b: "v < of_int q + 1" using hi by linarith
    from a b have "\<lfloor>v\<rfloor> = q" by (intro floor_unique) simp_all
    then show "int (render_frames t) = 42336000 div t" by (simp add: fr q_def)
  }
  {
    assume "t dvd 42336000"
    then have r0: "r = 0" by (simp add: r_def)
    have "(1 :: rat) / of_int t \<le> 1" using assms by simp
    then have a: "of_int q - 1 < v" and b: "v < of_int q + 1" using lo hi by (simp_all add: r0)
    have "q - 1 \<le> \<lfloor>v\<rfloor>" using a by (simp add: le_floor_iff)
    moreover have "\<lfloor>v\<rfloor> < q + 1" using b by (subst floor_less_iff) simp
    ultimately have "\<lfloor>v\<rfloor> = q \<or> \<lfloor>v\<rfloor> = q - 1" by linarith
    then show "int (render_frames t) = 42336000 div t \<or> int (render_frames t) = 42336000 div t - 1"
      by (simp add: fr q_def)
  }
qed


lemma ilog2_unique:
  assumes "0 < x" and "2 powi e \<le> x" and "x < 2 powi (e + 1)"
  shows "ilog2 x = e"
proof -
  define i where "i = ilog2 x"
  have b: "2 powi i \<le> x" "x < 2 powi (i + 1)" using ilog2_bounds [OF assms(1)] by (simp_all add: i_def)
  have "\<not> i < e"
  proof
    assume "i < e"
    then have "(2 :: rat) powi (i + 1) \<le> 2 powi e" by (intro power_int_increasing) simp_all
    with b(2) assms(2) show False by linarith
  qed
  moreover have "\<not> e < i"
  proof
    assume "e < i"
    then have "(2 :: rat) powi (e + 1) \<le> 2 powi i" by (intro power_int_increasing) simp_all
    with b(1) assms(3) show False by linarith
  qed
  ultimately show ?thesis by (simp add: i_def)
qed

lemma fl64_eval:
  assumes "0 < x" and "2 powi e \<le> x" and "x < 2 powi (e + 1)"
  shows "fl64 x = of_int (round_half_even (x / 2 powi (e - 52))) * 2 powi (e - 52)"
  using assms ilog2_unique [OF assms] by (simp add: fl64_def Let_def)

lemma render_frames_eval:
  assumes "t \<noteq> 0"
    and "fl64 (60 / of_int t) = x1"
    and "fl64 (16 * x1) = x2"
    and "fl64 (44100 * x2) = x3"
    and "0 \<le> x3" and "\<lfloor>x3\<rfloor> = n" and "0 \<le> n" and "n < 2 ^ 32"
  shows "render_frames t = nat n"
proof -
  have "trunc x3 = n" using assms(5,6) by (simp add: trunc_def)
  moreover have "n mod 2 ^ 32 = n" using assms(7,8) by simp
  ultimately show ?thesis
    using assms(1) by (simp add: render_frames_def Let_def assms(2,3,4))
qed

lemma render_frames_735: "render_frames 735 = 57599"
proof -
  have a: "fl64 (60 / of_int 735) = 5882252574524729 / 72057594037927936"
    by (subst fl64_eval [where e = "- 4"])
      (simp_all add: round_half_even_def Let_def rat_round_numeral power_int_minus)
  have b: "fl64 (16 * (5882252574524729 / 72057594037927936)) = 5882252574524729 / 4503599627370496"
    by (subst fl64_eval [where e = 0])
      (simp_all add: round_half_even_def Let_def rat_round_numeral power_int_minus)
  have c: "fl64 (44100 * (5882252574524729 / 4503599627370496)) = 7916483719987199 / 137438953472"
    by (subst fl64_eval [where e = 15])
      (simp_all add: round_half_even_def Let_def rat_round_numeral power_int_minus)
  have "render_frames 735 = nat 57599"
    by (rule render_frames_eval [OF _ a b c]) (simp_all add: rat_round_numeral)
  then show ?thesis by simp
qed

lemma render_frames_120: "render_frames 120 = 352800"
proof -
  have a: "fl64 (60 / of_int 120) = 1 / 2"
    by (subst fl64_eval [where e = "- 1"])
      (simp_all add: round_half_even_def Let_def rat_round_numeral power_int_minus)
  have b: "fl64 (16 * (1 / 2)) = 8"
    by (subst fl64_eval [where e = 3])
      (simp_all add: round_half_even_def Let_def rat_round_numeral power_int_minus)
  have c: "fl64 (44100 * 8) = 352800"
    by (subst fl64_eval [where e = 18])
      (simp_all add: round_half_even_def Let_def rat_round_numeral power_int_minus)
  have "render_frames 120 = nat 352800"
    by (rule render_frames_eval [OF _ a b c]) simp_all
  then show ?thesis by simp
qed

section \<open>The properties\<close>

text \<open>
  Claim C1. A track with two steps at the same beat: the live tick starts the first of
  them only, the offline renderer starts both. Here on a track with \<open>a.wav\<close> and \<open>b.wav\<close>
  at beat 3, both loaded: the tick of beat 3 starts \<open>a.wav\<close>; the rendering holds
  \<open>a.wav\<close> and \<open>b.wav\<close>, both at beat 3.
\<close>

theorem render_starts_second_step_at_same_beat:
  "live_triggers {JStr ''a.wav'', JStr ''b.wav''} twice_at_3 3
     = ([(JStr ''a.wav'', JNum 3)], None)
   \<and> render_schedule {JStr ''a.wav'', JStr ''b.wav''} twice_at_3
     = ([(JStr ''a.wav'', JNum 3), (JStr ''b.wav'', JNum 3)], None)"
  by (simp add: live_triggers_def render_schedule_def twice_at_3_def tick_track_def
      render_track_def render_step_def playSample_def)

text \<open>
  Claim C2. The encoder picks the scale by the test \<open>0.5 + sample < 0\<close>, so a negative
  sample from \<open>-0.5\<close> up is scaled by 32767, not by 32768: the sample \<open>-0.25\<close> is written
  as \<open>-8191\<close>, where the scale 32768 gives \<open>-8192\<close>.
\<close>

theorem quarter_negative_scaled_by_32767:
  "quantize (clip (Finite (- 1 / 4))) = - 8191 \<and> trunc (- 1 / 4 * 32768) = - 8192"
  by (simp add: to_int32_def trunc_def rat_round_numeral)

text \<open>
  Claim C3, as amended. \<open>extractJson\<close> hands \<open>JSON.parse\<close> the part of the text from the
  first \<open>{\<close> or \<open>[\<close> to the last \<open>}\<close> or \<open>]\<close> and returns what the parser returns; it
  raises its own error exactly when that part is empty (no opening character with a
  closing character after it), and the parser's error when the parser rejects the part.
\<close>

theorem extractJson_takes_open_to_last_close:
  "extractJson json_parse s =
     (if open_to_last_close s = [] then Inl NoJsonFound
      else case json_parse (open_to_last_close s) of
             Some v \<Rightarrow> Inr v
           | None \<Rightarrow> Inl JsonSyntaxError)"
  by (simp add: extractJson_def regex_match_eq)

text \<open>
  Claim C3 as stated fails: the text \<open>{} ]\<close> starts with the balanced object \<open>{}\<close>, but
  the pattern matches all of \<open>{} ]\<close>, which is not balanced.
\<close>

theorem extractJson_not_first_balanced:
  "regex_match ''{} ]'' = Some ''{} ]'' \<and> \<not> brackets_balanced [] ''{} ]''
   \<and> brackets_balanced [] ''{}'' \<and> take 2 ''{} ]'' = ''{}''"
  by (simp add: is_open_def is_close_def)

text \<open>
  Claim C4, as amended. For a tempo from 1 up (below \<open>16 * 60 * 44100\<close>), the context of
  the rendering has 2 channels, the rate 44100, and as its length the double
  \<open>44100 * (16 * (60 / bpm))\<close> cut to an integer, not rounded: the length is the floor of
  \<open>16 * 60 * 44100 / bpm\<close> when the tempo does not divide \<open>16 * 60 * 44100\<close>, and the
  quotient or one less than the quotient when it does.
\<close>

theorem render_length_is_cut_not_rounded:
  assumes "0 < t" and "t < 16 * 60 * 44100"
  shows "\<exists>ctx. render_context t = Inr ctx
           \<and> ctx_channels ctx = 2 \<and> ctx_sampleRate ctx = 44100
           \<and> (\<not> t dvd 16 * 60 * 44100 \<longrightarrow> int (ctx_length ctx) = (16 * 60 * 44100) div t)
           \<and> (t dvd 16 * 60 * 44100 \<longrightarrow>
                 int (ctx_length ctx) = (16 * 60 * 44100) div t
               \<or> int (ctx_length ctx) = (16 * 60 * 44100) div t - 1)"
proof -
  have "0 < 42336000 div t"
    using assms by (subst pos_imp_zdiv_pos_iff) simp_all
  then have q1: "1 \<le> 42336000 div t" by simp
  have q2: "t dvd 42336000 \<Longrightarrow> 2 \<le> 42336000 div t"
  proof -
    assume "t dvd 42336000"
    then obtain k where k: "42336000 = t * k" by (auto simp: dvd_def)
    with assms have "0 < k" by (metis zero_less_mult_pos zero_less_numeral)
    moreover have "k \<noteq> 1" using k assms(2) by auto
    ultimately have "2 \<le> k" by simp
    moreover have "(t * k) div t = k" using assms(1) by simp
    then have "42336000 div t = k" by (simp only: k [symmetric])
    ultimately show ?thesis by simp
  qed
  have pos: "0 < render_frames t"
    using render_frames_cases [OF assms(1)] q1 q2 by (cases "t dvd 42336000") auto
  then have "render_context t
      = Inr \<lparr>ctx_channels = 2, ctx_length = render_frames t, ctx_sampleRate = 44100\<rparr>"
    by (simp add: render_context_def)
  then show ?thesis
    using render_frames_cases [OF assms(1)] by simp
qed

theorem render_length_is_cut_not_rounded_witness:
  "(0 :: int) < 130 \<and> (130 :: int) < 16 * 60 * 44100 \<and> \<not> (130 :: int) dvd 16 * 60 * 44100
   \<and> (\<exists>ctx. render_context 130 = Inr ctx \<and> ctx_channels ctx = 2
          \<and> ctx_sampleRate ctx = 44100 \<and> int (ctx_length ctx) = 325661)
   \<and> (0 :: int) < 120 \<and> (120 :: int) < 16 * 60 * 44100 \<and> (120 :: int) dvd 16 * 60 * 44100
   \<and> (\<exists>ctx. render_context 120 = Inr ctx \<and> ctx_channels ctx = 2
          \<and> ctx_sampleRate ctx = 44100
          \<and> (int (ctx_length ctx) = 352800 \<or> int (ctx_length ctx) = 352799))"
  using render_length_is_cut_not_rounded [of 130] render_length_is_cut_not_rounded [of 120]
  by simp

text \<open>
  Claim C4 as stated fails: at 130 bpm the product \<open>16 * 60 / 130 * 44100\<close> is
  \<open>325661.538...\<close>, which rounds to 325662; the rendering has 325661 frames.
\<close>

theorem render_length_130_not_rounded:
  "render_frames 130 = 325661 \<and> round (16 * 60 / 130 * 44100 :: rat) = 325662"
proof -
  have "int (render_frames 130) = 42336000 div 130"
    by (rule render_frames_cases(1)) simp_all
  then have "render_frames 130 = 325661" by simp
  moreover have "round (16 * 60 / 130 * 44100 :: rat) = 325662"
    by (simp add: round_def rat_round_numeral)
  ultimately show ?thesis by simp
qed

text \<open>
  Claim C5. For a buffer of \<open>F\<close> frames on \<open>C\<close> channels (fewer than 32768, with a sample
  rate and a byte rate below \<open>2^32\<close>, so that the fields hold them), the encoder returns
  \<open>44 + F * C * 2\<close> bytes that begin with the tags \<open>RIFF\<close>, \<open>WAVE\<close>, \<open>fmt \<close> and
  \<open>data\<close> in their places, the format chunk size 16, the format tag 1, the channel
  count, the sample rate, the byte rate \<open>sampleRate * 2 * C\<close>, the block alignment
  \<open>C * 2\<close> and the bit depth 16.
\<close>

theorem wav_size_and_header:
  assumes "numberOfChannels buffer < 32768"
    and "sampleRate buffer < 4294967296"
    and "sampleRate buffer * 2 * numberOfChannels buffer < 4294967296"
  shows "\<exists>bytes. bufferToWav buffer = Some (Inr bytes)
           \<and> length bytes = 44 + frames buffer * numberOfChannels buffer * 2
           \<and> take 4 bytes = [0x52, 0x49, 0x46, 0x46]
           \<and> take 4 (drop 8 bytes) = [0x57, 0x41, 0x56, 0x45]
           \<and> take 4 (drop 12 bytes) = [0x66, 0x6D, 0x74, 0x20]
           \<and> u32_at bytes 16 = 16
           \<and> u16_at bytes 20 = 1
           \<and> u16_at bytes 22 = numberOfChannels buffer
           \<and> u32_at bytes 24 = sampleRate buffer
           \<and> u32_at bytes 28 = sampleRate buffer * 2 * numberOfChannels buffer
           \<and> u16_at bytes 32 = numberOfChannels buffer * 2
           \<and> u16_at bytes 34 = 16
           \<and> take 4 (drop 36 bytes) = [0x64, 0x61, 0x74, 0x61]"
proof -
  from bufferToWav_returns [of buffer] obtain bytes where
    b: "bufferToWav buffer = Some (Inr bytes)"
      "length bytes = 44 + frames buffer * numberOfChannels buffer * 2"
      "take 44 bytes = wav_header buffer"
    by blast
  define C where "C = numberOfChannels buffer"
  define R where "R = sampleRate buffer"
  define len where "len = frames buffer * C * 2 + 44"
  define rest where "rest = drop 44 bytes"
  have split: "bytes = wav_header buffer @ rest"
    using b(3) append_take_drop_id [of 44 bytes] by (simp add: rest_def)
  have hdr: "wav_header buffer =
      le32 0x46464952 @ le32 (of_nat (len - 8)) @ le32 0x45564157 @ le32 0x20746d66
      @ le32 16 @ le16 1 @ le16 (of_nat C) @ le32 (of_nat R) @ le32 (of_nat (R * 2 * C))
      @ le16 (of_nat (C * 2)) @ le16 16 @ le32 0x61746164 @ le32 (of_nat (len - 44))"
    by (simp add: wav_header_def Let_def C_def R_def len_def)
  have l16: "\<And>w. length (le16 w) = 2" by (simp add: le16_def)
  have l32: "\<And>w. length (le32 w) = 4" by (simp add: le32_def)
  have t0: "take 4 bytes = [0x52, 0x49, 0x46, 0x46]"
    by (simp add: split hdr l32) (simp add: le32_def)
  have t8: "take 4 (drop 8 bytes) = [0x57, 0x41, 0x56, 0x45]"
    by (simp add: split hdr l32) (simp add: le32_def)
  have t12: "take 4 (drop 12 bytes) = [0x66, 0x6D, 0x74, 0x20]"
    by (simp add: split hdr l32) (simp add: le32_def)
  have t36: "take 4 (drop 36 bytes) = [0x64, 0x61, 0x74, 0x61]"
    by (simp add: split hdr l32 l16) (simp add: le32_def)
  have f16: "u32_at bytes 16 = unat (16 :: 32 word)"
    unfolding split hdr
    using u32_at_le32 [of "le32 0x46464952 @ le32 (of_nat (len - 8)) @ le32 0x45564157 @ le32 0x20746d66" 16 16]
    by (simp add: l32)
  have f20: "u16_at bytes 20 = unat (1 :: 16 word)"
    unfolding split hdr
    using u16_at_le16 [of "le32 0x46464952 @ le32 (of_nat (len - 8)) @ le32 0x45564157 @ le32 0x20746d66 @ le32 16" 20 1]
    by (simp add: l32)
  have f22: "u16_at bytes 22 = unat (of_nat C :: 16 word)"
    unfolding split hdr
    using u16_at_le16 [of "le32 0x46464952 @ le32 (of_nat (len - 8)) @ le32 0x45564157 @ le32 0x20746d66 @ le32 16 @ le16 1" 22 "of_nat C"]
    by (simp add: l32 l16)
  have f24: "u32_at bytes 24 = unat (of_nat R :: 32 word)"
    unfolding split hdr
    using u32_at_le32 [of "le32 0x46464952 @ le32 (of_nat (len - 8)) @ le32 0x45564157 @ le32 0x20746d66 @ le32 16 @ le16 1 @ le16 (of_nat C)" 24 "of_nat R"]
    by (simp add: l32 l16)
  have f28: "u32_at bytes 28 = unat (of_nat (R * 2 * C) :: 32 word)"
    unfolding split hdr
    using u32_at_le32 [of "le32 0x46464952 @ le32 (of_nat (len - 8)) @ le32 0x45564157 @ le32 0x20746d66 @ le32 16 @ le16 1 @ le16 (of_nat C) @ le32 (of_nat R)" 28 "of_nat (R * 2 * C)"]
    by (simp add: l32 l16)
  have f32: "u16_at bytes 32 = unat (of_nat (C * 2) :: 16 word)"
    unfolding split hdr
    using u16_at_le16 [of "le32 0x46464952 @ le32 (of_nat (len - 8)) @ le32 0x45564157 @ le32 0x20746d66 @ le32 16 @ le16 1 @ le16 (of_nat C) @ le32 (of_nat R) @ le32 (of_nat (R * 2 * C))" 32 "of_nat (C * 2)"]
    by (simp add: l32 l16)
  have f34: "u16_at bytes 34 = unat (16 :: 16 word)"
    unfolding split hdr
    using u16_at_le16 [of "le32 0x46464952 @ le32 (of_nat (len - 8)) @ le32 0x45564157 @ le32 0x20746d66 @ le32 16 @ le16 1 @ le16 (of_nat C) @ le32 (of_nat R) @ le32 (of_nat (R * 2 * C)) @ le16 (of_nat (C * 2))" 34 16]
    by (simp add: l32 l16)
  have C2: "C * 2 < 65536" and C1: "C < 65536" using assms(1) by (simp_all add: C_def)
  have R1: "R < 4294967296" and R2: "R * 2 * C < 4294967296"
    using assms(2,3) by (simp_all add: C_def R_def)
  show ?thesis
    using b(1,2) t0 t8 t12 t36 f16 f20 f22 f24 f28 f32 f34
      unat_of_nat16 [OF C1] unat_of_nat16 [OF C2] unat_of_nat32 [OF R1] unat_of_nat32 [OF R2]
    by (intro exI [of _ bytes]) (simp add: C_def R_def)
qed

theorem wav_size_and_header_witness:
  "numberOfChannels tiny_buffer < 32768
   \<and> sampleRate tiny_buffer < 4294967296
   \<and> sampleRate tiny_buffer * 2 * numberOfChannels tiny_buffer < 4294967296
   \<and> bufferToWav tiny_buffer = Some (Inr
        [0x52, 0x49, 0x46, 0x46, 0x2C, 0, 0, 0, 0x57, 0x41, 0x56, 0x45,
         0x66, 0x6D, 0x74, 0x20, 0x10, 0, 0, 0, 1, 0, 2, 0,
         0x44, 0xAC, 0, 0, 0x10, 0xB1, 2, 0, 4, 0, 0x10, 0,
         0x64, 0x61, 0x74, 0x61, 8, 0, 0, 0,
         0xFF, 0x3F, 0xFF, 0x7F, 0, 0x80, 0, 0])"
proof -
  have h: "numberOfChannels tiny_buffer < 32768" "sampleRate tiny_buffer < 4294967296"
    "sampleRate tiny_buffer * 2 * numberOfChannels tiny_buffer < 4294967296"
    by (simp_all add: tiny_buffer_def numberOfChannels_def)
  show ?thesis
    using h wav_size_and_header [OF h]
    by (simp add: bufferToWav_def tiny_buffer_def numberOfChannels_def Let_def put_field_def
        view_set_def le16_def le32_def wav_loop.simps read_sample_def to_int32_def trunc_def
        rat_round_numeral)
qed

text \<open>
  Claim C6. For every list \<open>T\<close>, the wrapped form \<open>{"tracks": T}\<close> and the bare array \<open>T\<close>
  both pass and give the same sequence, \<open>T\<close>; a value that is neither an array nor an
  object with a \<open>tracks\<close> value other than \<open>null\<close> is refused (with the error of the
  missing \<open>tracks\<close> array; with a \<open>TypeError\<close> when the value itself is \<open>null\<close>).
\<close>

theorem wrapped_and_bare_parse_alike:
  "sequenceData (JObj [(''tracks'', JArr T)]) = Inr (JArr T)
   \<and> sequenceData (JArr T) = Inr (JArr T)
   \<and> (\<not> is_array v \<and> (tracks_value v = None \<or> tracks_value v = Some JNull)
        \<longrightarrow> sequenceData v
              = Inl (if v = JNull \<or> v = JUndefined then TypeError else NoTracksArray))"
  by (cases v) (auto simp: sequenceData_def split: option.splits)

theorem wrapped_and_bare_parse_alike_witness:
  "sequenceData (JObj [(''tracks'', JArr [JObj [(''name'', JStr ''Kick''), (''steps'', JArr [])]])])
     = Inr (JArr [JObj [(''name'', JStr ''Kick''), (''steps'', JArr [])]])
   \<and> sequenceData (JArr [JObj [(''name'', JStr ''Kick''), (''steps'', JArr [])]])
     = Inr (JArr [JObj [(''name'', JStr ''Kick''), (''steps'', JArr [])]])
   \<and> \<not> is_array (JObj [(''tracks'', JNull)])
   \<and> tracks_value (JObj [(''tracks'', JNull)]) = Some JNull
   \<and> sequenceData (JObj [(''tracks'', JNull)]) = Inl NoTracksArray"
  using wrapped_and_bare_parse_alike
    [of "[JObj [(''name'', JStr ''Kick''), (''steps'', JArr [])]]" "JObj [(''tracks'', JNull)]"]
  by simp

text \<open>
  Claim C7. A generation that ends in the error handler can have replaced the current
  sequence already: the assignment to \<open>currentSequence\<close> comes before the calls that
  throw on a track without \<open>steps\<close>. With the answer \<open>[{}]\<close> the status shows the error,
  the sequence held before is gone, and a tick of the playback that follows throws
  before it does anything.
\<close>

theorem failed_generation_replaces_sequence:
  "statusDiv (getAIResponse stepless_env example_state)
     = ''Error: Could not get a valid response from the AI.''
   \<and> currentSequence (getAIResponse stepless_env example_state) = JArr [JObj []]
   \<and> currentSequence example_state = kick_sequence
   \<and> tick (togglePlayback (getAIResponse stepless_env example_state))
       = togglePlayback (getAIResponse stepless_env example_state)"
  by (simp add: getAIResponse_def stepless_env_def example_state_def findSamples_def
      toLowerCase_def lower_char_def generation_try_def parse_response_def extractJson_def
      is_open_def is_close_def sequenceData_def loadSamplesForSequence_def sequence_files_def
      track_files_def Let_def togglePlayback_def tick_def live_triggers_def tick_track_def)

text \<open>
  Claim C8. When no entry of the catalog has a category that contains the search term
  (\<open>Drums\<close>, compared in lower case), \<open>getAIResponse\<close> ends with the message that there
  are not enough drum samples, and has sent no request to the generator.
\<close>

theorem no_drums_no_request:
  assumes "rearranges (shuffleKicks env)"
    and "filter (\<lambda>e. str_includes (toLowerCase (category e)) (toLowerCase ''Drums''))
           (sampleDatabase s) = []"
  shows "getAIResponse env s =
           s\<lparr>aiButton_disabled := False, downloadButton_disabled := True,
              statusDiv := ''Error: Not enough drum samples found in the database.''\<rparr>
         \<and> requests (getAIResponse env s) = requests s"
proof -
  have "findSamples (shuffleKicks env) (sampleDatabase s) ''Drums'' 5 = []"
    by (rule findSamples_Nil [OF assms])
  then show ?thesis by (simp add: getAIResponse_def Let_def)
qed

theorem no_drums_no_request_witness:
  "rearranges (shuffleKicks stepless_env)
   \<and> filter (\<lambda>e. str_includes (toLowerCase (category e)) (toLowerCase ''Drums''))
        (sampleDatabase (example_state\<lparr>sampleDatabase :=
           [\<lparr>filename = ''sub.wav'', category = ''Bass'', pack = None\<rparr>]\<rparr>)) = []
   \<and> statusDiv (getAIResponse stepless_env (example_state\<lparr>sampleDatabase :=
           [\<lparr>filename = ''sub.wav'', category = ''Bass'', pack = None\<rparr>]\<rparr>))
       = ''Error: Not enough drum samples found in the database.''
   \<and> requests (getAIResponse stepless_env (example_state\<lparr>sampleDatabase :=
           [\<lparr>filename = ''sub.wav'', category = ''Bass'', pack = None\<rparr>]\<rparr>)) = []"
proof -
  have r: "rearranges (shuffleKicks stepless_env)"
    by (simp add: rearranges_def stepless_env_def)
  have f: "filter (\<lambda>e. str_includes (toLowerCase (category e)) (toLowerCase ''Drums''))
        (sampleDatabase (example_state\<lparr>sampleDatabase :=
           [\<lparr>filename = ''sub.wav'', category = ''Bass'', pack = None\<rparr>]\<rparr>)) = []"
    by (simp add: toLowerCase_def lower_char_def)
  show ?thesis
    using r f no_drums_no_request [OF r f]
    by (simp add: example_state_def)
qed



text \<open>
  Claim C10. With an empty current sequence, a toggle of the playback and a request to
  render leave the state as it is: the playing flag and the timer keep their values,
  nothing is rendered and nothing is downloaded.
\<close>

theorem empty_sequence_is_noop:
  assumes "currentSequence s = JArr []"
  shows "togglePlayback s = s \<and> renderBeatToWav startRendering s = Some s"
  using assms by (simp add: togglePlayback_def renderBeatToWav_def)

theorem empty_sequence_is_noop_witness:
  "currentSequence (example_state\<lparr>currentSequence := JArr []\<rparr>) = JArr []
   \<and> \<not> isPlaying (togglePlayback (example_state\<lparr>currentSequence := JArr []\<rparr>))
   \<and> sequencerInterval (togglePlayback (example_state\<lparr>currentSequence := JArr []\<rparr>)) = None
   \<and> renderBeatToWav silent_rendering (example_state\<lparr>currentSequence := JArr []\<rparr>)
       = Some (example_state\<lparr>currentSequence := JArr []\<rparr>)"
proof -
  have e: "currentSequence (example_state\<lparr>currentSequence := JArr []\<rparr>) = JArr []"
    by simp
  show ?thesis
    using empty_sequence_is_noop [OF e, of silent_rendering]
    by (simp add: example_state_def)
qed

end
